theory Spec2Isabelle
  imports Complex_Main "HOL-Library.Word"
begin

section \<open>Focal windows of raster\_tools (focal.py)\<close>

text \<open>
  A shallow embedding of \<^verbatim>\<open>raster_tools/focal.py\<close>.  Python scalars that reach the
  window builder are either integers or numbers of another type; floating-point payload
  values are a real number or NaN (infinities and rounding are outside the model).
\<close>

subsection \<open>Values, errors and grids\<close>

datatype pyval = IntV int | FloatV real

datatype error = TypeError | ValueError | IndexError | KeyError

text \<open>The first argument of \<^verbatim>\<open>get_focal_window\<close>: a scalar, or a list or tuple.\<close>

datatype width_or_radius = Scalar pyval | Seq "pyval list"

text \<open>
  Modelled from the spec: \<^verbatim>\<open>_utils.is_int\<close> is not part of the sources at hand; the spec
  speaks of non-integer values, so the test is on the type of the scalar.
\<close>

fun is_int :: "pyval \<Rightarrow> bool" where
  "is_int (IntV _) = True"
| "is_int (FloatV _) = False"

fun num_of :: "pyval \<Rightarrow> real" where
  "num_of (IntV i) = real_of_int i"
| "num_of (FloatV x) = x"

fun int_of :: "pyval \<Rightarrow> int" where
  "int_of (IntV i) = i"
| "int_of (FloatV x) = \<lfloor>x\<rfloor>"

type_synonym 'a grid = "'a list list"

definition nrows :: "'a grid \<Rightarrow> nat" where
  "nrows g = length g"

definition ncols :: "'a grid \<Rightarrow> nat" where
  "ncols g = (case g of [] \<Rightarrow> 0 | row # _ \<Rightarrow> length row)"

text \<open>A two-dimensional array: every row has the same length.\<close>

definition rect :: "'a grid \<Rightarrow> bool" where
  "rect g = list_all (\<lambda>row. length row = ncols g) g"

text \<open>Python's \<^verbatim>\<open>range(lo, hi)\<close>.\<close>

definition py_range :: "int \<Rightarrow> int \<Rightarrow> int list" where
  "py_range lo hi = map (\<lambda>i. lo + int i) [0..<nat (hi - lo)]"

subsection \<open>get\_focal\_window\<close>

text \<open>
  Lines 532-542: a sequence must have two entries, the first smaller than the second;
  a scalar becomes a one-element list.
\<close>

definition check_sequence :: "width_or_radius \<Rightarrow> error + pyval list" where
  "check_sequence w =
     (case w of
        Seq vs \<Rightarrow>
          if length vs \<noteq> 2 then Inl ValueError
          else if num_of (vs ! 0) \<ge> num_of (vs ! 1) then Inl ValueError
          else Inr vs
      | Scalar v \<Rightarrow> Inr [v])"

text \<open>Lines 543-552: the loop over the values, stopping at the first offender.\<close>

fun check_values :: "pyval list \<Rightarrow> error option" where
  "check_values [] = None"
| "check_values (v # vs) =
     (if \<not> is_int v then Some TypeError
      else if num_of v \<le> 0 then Some ValueError
      else check_values vs)"

text \<open>Lines 553-563: the checks on an explicit height.\<close>

definition check_height :: "pyval list \<Rightarrow> pyval option \<Rightarrow> error option" where
  "check_height vs height =
     (case height of
        None \<Rightarrow> None
      | Some h \<Rightarrow>
          if length vs = 2 then Some ValueError
          else if \<not> is_int h then Some TypeError
          else if num_of h \<le> 0 then Some ValueError
          else None)"

text \<open>
  Line 575-576: \<^verbatim>\<open>rxy = np.sqrt((x - r) ** 2 + (y - r) ** 2); rxy <= r\<close>, the square root
  taken in the reals.
\<close>

definition rxy_le :: "int \<Rightarrow> int \<Rightarrow> int \<Rightarrow> bool" where
  "rxy_le x y r = (sqrt (real_of_int ((x - r)\<^sup>2 + (y - r)\<^sup>2)) \<le> real_of_int r)"

text \<open>
  Lines 569-577: one circle.  The array has \<^verbatim>\<open>height\<close> rows and \<^verbatim>\<open>width\<close> columns and
  is written at \<^verbatim>\<open>[x, y]\<close> for \<^verbatim>\<open>x\<close> below \<^verbatim>\<open>width\<close> and \<^verbatim>\<open>y\<close> below \<^verbatim>\<open>height\<close>; the two are
  the same number.
\<close>

definition circle_window :: "int \<Rightarrow> bool grid" where
  "circle_window rvalue =
     (let width = ((rvalue - 1) * 2) + 1;
          height = width;
          r = (width - 1) div 2
      in map (\<lambda>x. map (\<lambda>y. rxy_le x y r) (py_range 0 height)) (py_range 0 width))"

text \<open>
  \<^verbatim>\<open>np.pad(w1, padding, mode="constant", constant_values=False)\<close> with a padding of two
  numbers: numpy reads them as (before, after), the same on every axis.  A negative
  width is refused.
\<close>

definition np_pad :: "bool grid \<Rightarrow> int \<Rightarrow> int \<Rightarrow> error + bool grid" where
  "np_pad w before after =
     (if before < 0 \<or> after < 0 then Inl ValueError
      else
        let b = nat before; a = nat after;
            blank = replicate (b + ncols w + a) False
        in Inr (replicate b blank
                @ map (\<lambda>row. replicate b False @ row @ replicate a False) w
                @ replicate a blank))"

text \<open>\<^verbatim>\<open>w2[w1] = False\<close>: a boolean mask of another shape is an IndexError.\<close>

definition clear_where :: "bool grid \<Rightarrow> bool grid \<Rightarrow> error + bool grid" where
  "clear_where w2 w1 =
     (if map length w1 \<noteq> map length w2 then Inl IndexError
      else Inr (map2 (\<lambda>row2 row1. map2 (\<lambda>b2 b1. b2 \<and> \<not> b1) row2 row1) w2 w1))"

text \<open>Lines 565-590: the window itself, once the arguments have passed the checks.\<close>

definition build_window :: "pyval list \<Rightarrow> pyval option \<Rightarrow> error + bool grid" where
  "build_window vs height =
     (case height of
        None \<Rightarrow>
          (let windows = map (\<lambda>rvalue. circle_window (int_of rvalue)) vs
           in if length windows \<noteq> 2 then
                (case windows of [] \<Rightarrow> Inl IndexError | w # _ \<Rightarrow> Inr w)
              else
                (let w1 = windows ! 0; w2 = windows ! 1;
                     pad_rows = (int (nrows w2) - int (nrows w1)) div 2;
                     pad_cols = (int (ncols w2) - int (ncols w1)) div 2
                 in case np_pad w1 pad_rows pad_cols of
                      Inl e \<Rightarrow> Inl e
                    | Inr w1p \<Rightarrow> clear_where w2 w1p))
      | Some h \<Rightarrow>
          (let width = int_of (vs ! 0)
           in Inr (replicate (nat width) (replicate (nat (int_of h)) True))))"

definition get_focal_window :: "width_or_radius \<Rightarrow> pyval option \<Rightarrow> error + bool grid" where
  "get_focal_window w height =
     (case check_sequence w of
        Inl e \<Rightarrow> Inl e
      | Inr vs \<Rightarrow>
          (case check_values vs of
             Some e \<Rightarrow> Inl e
           | None \<Rightarrow>
               (case check_height vs height of
                  Some e \<Rightarrow> Inl e
                | None \<Rightarrow> build_window vs height)))"

text \<open>
  The malformed specs, in the words of the specification: a radius, width or height that
  is not an integer or not greater than 0, a radius pair whose first entry is not below
  the second, a radius pair together with an explicit height.
\<close>

definition bad_value :: "pyval \<Rightarrow> bool" where
  "bad_value v = (\<not> is_int v \<or> num_of v \<le> 0)"

definition malformed_spec :: "width_or_radius \<Rightarrow> pyval option \<Rightarrow> bool" where
  "malformed_spec w height =
     ((case w of
         Scalar v \<Rightarrow> bad_value v
       | Seq vs \<Rightarrow> (\<exists>v \<in> set vs. bad_value v) \<or> num_of (vs ! 0) \<ge> num_of (vs ! 1)
                   \<or> height \<noteq> None)
      \<or> (case height of None \<Rightarrow> False | Some h \<Rightarrow> bad_value h))"

text \<open>A footprint spec names one value or a pair of values.\<close>

definition footprint_spec :: "width_or_radius \<Rightarrow> bool" where
  "footprint_spec w = (case w of Scalar _ \<Rightarrow> True | Seq vs \<Rightarrow> length vs = 2)"

subsection \<open>Payload values and the reducers\<close>

text \<open>A float payload value: NaN or a number.\<close>

datatype fval = NaN | Num real

fun isnan :: "fval \<Rightarrow> bool" where
  "isnan NaN = True"
| "isnan (Num _) = False"

text \<open>The numbers of a sample, in their order, NaN entries left out.\<close>

fun finite_values :: "fval list \<Rightarrow> real list" where
  "finite_values [] = []"
| "finite_values (NaN # x) = finite_values x"
| "finite_values (Num v # x) = v # finite_values x"

text \<open>
  The numpy reductions behind lines 25-57, on a buffer with at least one slot:
  \<^verbatim>\<open>nanmin\<close>, \<^verbatim>\<open>nanmax\<close>, \<^verbatim>\<open>nanmean\<close>, \<^verbatim>\<open>nanmedian\<close>, \<^verbatim>\<open>nanvar\<close> and \<^verbatim>\<open>nanstd\<close> give NaN
  when every entry is NaN; \<^verbatim>\<open>nansum\<close> treats NaN as zero.
\<close>

definition np_nanmin :: "fval list \<Rightarrow> fval" where
  "np_nanmin x = (case finite_values x of [] \<Rightarrow> NaN | v # vs \<Rightarrow> Num (fold min vs v))"

definition np_nanmax :: "fval list \<Rightarrow> fval" where
  "np_nanmax x = (case finite_values x of [] \<Rightarrow> NaN | v # vs \<Rightarrow> Num (fold max vs v))"

definition np_nansum :: "fval list \<Rightarrow> fval" where
  "np_nansum x = Num (sum_list (finite_values x))"

definition np_nanmean :: "fval list \<Rightarrow> fval" where
  "np_nanmean x =
     (let vs = finite_values x
      in if vs = [] then NaN else Num (sum_list vs / real (length vs)))"

definition np_nanmedian :: "fval list \<Rightarrow> fval" where
  "np_nanmedian x =
     (let vs = sort (finite_values x); n = length vs
      in if n = 0 then NaN
         else if odd n then Num (vs ! (n div 2))
         else Num ((vs ! (n div 2 - 1) + vs ! (n div 2)) / 2))"

definition np_nanvar :: "fval list \<Rightarrow> fval" where
  "np_nanvar x =
     (let vs = finite_values x
      in if vs = [] then NaN
         else let m = sum_list vs / real (length vs)
              in Num (sum_list (map (\<lambda>v. (v - m)\<^sup>2) vs) / real (length vs)))"

definition np_nanstd :: "fval list \<Rightarrow> fval" where
  "np_nanstd x = (case np_nanvar x of NaN \<Rightarrow> NaN | Num v \<Rightarrow> Num (sqrt v))"

text \<open>\<^verbatim>\<open>np.argmax\<close>: the index of the first occurrence of the maximum.\<close>

definition np_argmax :: "'a::linorder list \<Rightarrow> nat" where
  "np_argmax xs = length (takeWhile (\<lambda>x. x \<noteq> Max (set xs)) xs)"

definition agg_nan_min :: "fval list \<Rightarrow> fval" where
  "agg_nan_min x = np_nanmin x"

definition agg_nan_max :: "fval list \<Rightarrow> fval" where
  "agg_nan_max x = np_nanmax x"

definition agg_nan_mean :: "fval list \<Rightarrow> fval" where
  "agg_nan_mean x = np_nanmean x"

definition agg_nan_median :: "fval list \<Rightarrow> fval" where
  "agg_nan_median x = np_nanmedian x"

definition agg_nan_sum :: "fval list \<Rightarrow> fval" where
  "agg_nan_sum x = np_nansum x"

definition agg_nan_var :: "fval list \<Rightarrow> fval" where
  "agg_nan_var x = np_nanvar x"

definition agg_nan_std :: "fval list \<Rightarrow> fval" where
  "agg_nan_std x = np_nanstd x"

text \<open>
  Lines 60-71.  The set \<^verbatim>\<open>s\<close> is kept as the list of its members; \<^verbatim>\<open>s.add(v)\<close> leaves a
  set that holds \<^verbatim>\<open>v\<close> already as it is.
\<close>

definition unique_step :: "fval \<Rightarrow> real list \<Rightarrow> real list" where
  "unique_step v s = (case v of NaN \<Rightarrow> s | Num r \<Rightarrow> List.insert r s)"

definition agg_nan_unique :: "fval list \<Rightarrow> fval" where
  "agg_nan_unique x =
     (let s = fold unique_step x []
      in if length s \<noteq> 0 then Num (real (length s)) else NaN)"

text \<open>
  The dictionary \<^verbatim>\<open>c\<close> of lines 77, 101 and 123: keys with their counts, in the order of
  first insertion.  \<^verbatim>\<open>count_up v c\<close> is the branch
  \<^verbatim>\<open>if v in c: c[v] += one else: c[v] = one\<close>.  The annotations \<^verbatim>\<open>one: uint16\<close>,
  \<^verbatim>\<open>j: uint16\<close> and \<^verbatim>\<open>n: uint16\<close> on local variables are not part of the compiled function;
  these are machine integers of 64 bits, which no sample fills, so they are naturals here.
\<close>

fun count_up :: "real \<Rightarrow> (real \<times> nat) list \<Rightarrow> (real \<times> nat) list" where
  "count_up v [] = [(v, 1)]"
| "count_up v ((k, n) # c) = (if k = v then (k, n + 1) # c else (k, n) # count_up v c)"

text \<open>
  Lines 80-88: one round of the loop of \<^verbatim>\<open>_agg_nan_mode\<close> on the state \<^verbatim>\<open>(c, x, j)\<close>; the
  numbers met so far are moved to the front of \<^verbatim>\<open>x\<close>.
\<close>

definition mode_step :: "nat \<Rightarrow> (real \<times> nat) list \<times> fval list \<times> nat
                           \<Rightarrow> (real \<times> nat) list \<times> fval list \<times> nat" where
  "mode_step i st =
     (case st of (c, x, j) \<Rightarrow>
        (case x ! i of
           NaN \<Rightarrow> (c, x, j)
         | Num v \<Rightarrow> (count_up v c, x[j := Num v], j + 1)))"

text \<open>
  Lines 89-96.  \<^verbatim>\<open>cnts\<close> is an array of unsigned 16-bit integers: a count is stored
  modulo \<open>2^16\<close>.  Every entry of \<^verbatim>\<open>vals\<close> is a key of \<^verbatim>\<open>c\<close>.
\<close>

definition agg_nan_mode :: "fval list \<Rightarrow> fval" where
  "agg_nan_mode x0 =
     (case fold mode_step [0..<length x0] ([], x0, 0) of (c, x, j) \<Rightarrow>
        (let vals = sort (finite_values (take j x))
         in if length vals = 0 then NaN
            else
              let cnts = map (\<lambda>v. (word_of_nat (case map_of c v of Some n \<Rightarrow> n | None \<Rightarrow> 0)
                                       :: 16 word)) vals
              in Num (vals ! np_argmax cnts)))"

text \<open>Lines 104-110 and 126-132: the dictionary of counts and the number of values.\<close>

definition tally_step :: "fval \<Rightarrow> (real \<times> nat) list \<times> nat \<Rightarrow> (real \<times> nat) list \<times> nat" where
  "tally_step v st =
     (case st of (c, n) \<Rightarrow>
        (case v of NaN \<Rightarrow> (c, n) | Num r \<Rightarrow> (count_up r c, n + 1)))"

definition agg_nan_entropy :: "fval list \<Rightarrow> fval" where
  "agg_nan_entropy x =
     (case fold tally_step x ([], 0) of (c, n) \<Rightarrow>
        if length c = 0 then NaN
        else
          let frac = 1 / real n
          in Num (fold (\<lambda>cnt entr. let p = real cnt * frac in entr - p * ln p) (map snd c) 0))"

definition agg_nan_asm :: "fval list \<Rightarrow> fval" where
  "agg_nan_asm x =
     (case fold tally_step x ([], 0) of (c, n) \<Rightarrow>
        if length c = 0 then NaN
        else
          let frac = 1 / real n
          in Num (fold (\<lambda>cnt asm. let p = real cnt * frac in asm + p * p) (map snd c) 0))"

subsection \<open>The tile kernels\<close>

text \<open>Indexing as numpy does it: a negative index counts from the end.\<close>

definition item :: "'a list \<Rightarrow> int \<Rightarrow> 'a" where
  "item xs i = xs ! nat (if i < 0 then int (length xs) + i else i)"

definition cell :: "'a grid \<Rightarrow> int \<Rightarrow> int \<Rightarrow> 'a" where
  "cell g r c = item (item g r) c"

text \<open>
  An output buffer from \<^verbatim>\<open>np.empty_like\<close>: a cell is \<open>None\<close> until it is written.
  \<^verbatim>\<open>out[r, c] = v\<close> for indices that are not negative.
\<close>

definition empty_like :: "'a grid \<Rightarrow> 'b option grid" where
  "empty_like chunk = replicate (nrows chunk) (replicate (ncols chunk) None)"

definition set_cell :: "'a option grid \<Rightarrow> int \<Rightarrow> int \<Rightarrow> 'a \<Rightarrow> 'a option grid" where
  "set_cell out r c v = out[nat r := (out ! nat r)[nat c := Some v]]"

text \<open>
  Lines 161-170 of \<^verbatim>\<open>_focal_chunk\<close>.  \<^verbatim>\<open>kernel_values.fill(np.nan)\<close> leaves NaN in every slot
  of a float buffer; an integer buffer cannot hold NaN, and what its slots hold after the
  fill is not determined by the program.  \<^verbatim>\<open>filled\<close> gives the content of each slot after
  the fill.  The buffer then receives the chunk value at every position of the footprint
  that is set; \<^verbatim>\<open>ki\<close> runs over the flattened kernel.
\<close>

definition gather_step :: "fval grid \<Rightarrow> bool list \<Rightarrow> int \<Rightarrow> int \<Rightarrow> nat \<times> fval list
                             \<Rightarrow> nat \<times> fval list" where
  "gather_step chunk kern kr kc st =
     (case st of (ki, kernel_values) \<Rightarrow>
        (ki + 1, if kern ! ki then kernel_values[ki := cell chunk kr kc] else kernel_values))"

definition gather :: "fval grid \<Rightarrow> bool list \<Rightarrow> nat \<Rightarrow> (nat \<Rightarrow> fval) \<Rightarrow> int \<Rightarrow> int
                        \<Rightarrow> int \<Rightarrow> int \<Rightarrow> int \<Rightarrow> int \<Rightarrow> fval list" where
  "gather chunk kern ksize filled r c kr_top kr_bot kc_left kc_right =
     snd (fold (\<lambda>kr st. fold (\<lambda>kc st. gather_step chunk kern kr kc st)
                             (py_range (c - kc_left) (c + kc_right + 1)) st)
               (py_range (r - kr_top) (r + kr_bot + 1))
               (0, map filled [0..<ksize]))"

text \<open>
  Lines 143-172.  Two things depend on the dtype of the chunk and are handed in:
  \<^verbatim>\<open>filled r c ki\<close>, the content of slot \<^verbatim>\<open>ki\<close> of \<^verbatim>\<open>kernel_values\<close> after the fill made for
  the output cell \<^verbatim>\<open>(r, c)\<close> (NaN on a float chunk), and \<^verbatim>\<open>to_dtype\<close>, the conversion of the
  reducer's result to the dtype of \<^verbatim>\<open>out\<close> (the identity on a float chunk).
\<close>

definition focal_chunk :: "(int \<Rightarrow> int \<Rightarrow> nat \<Rightarrow> fval) \<Rightarrow> (fval \<Rightarrow> fval) \<Rightarrow> fval grid \<Rightarrow> bool grid
                             \<Rightarrow> (fval list \<Rightarrow> fval) \<Rightarrow> fval option grid" where
  "focal_chunk filled to_dtype chunk kern func =
     (let out = empty_like chunk;
          rows = int (nrows chunk); cols = int (ncols chunk);
          krows = int (nrows kern); kcols = int (ncols kern);
          kr_top = (krows - 1) div 2;
          kr_bot = krows div 2;
          kc_left = (kcols - 1) div 2;
          kc_right = kcols div 2;
          r_ovlp = max kr_top kr_bot;
          c_ovlp = max kc_left kc_right;
          ksize = nrows kern * ncols kern;
          kflat = concat kern
      in fold (\<lambda>r out.
                 fold (\<lambda>c out.
                         set_cell out r c
                           (to_dtype (func (gather chunk kflat ksize (filled r c) r c
                                              kr_top kr_bot kc_left kc_right))))
                      (py_range c_ovlp (cols - c_ovlp)) out)
              (py_range r_ovlp (rows - r_ovlp)) out)"

text \<open>Float arithmetic on payload values: NaN is absorbing.\<close>

fun fadd :: "fval \<Rightarrow> fval \<Rightarrow> fval" where
  "fadd (Num a) (Num b) = Num (a + b)"
| "fadd _ _ = NaN"

fun fmul :: "fval \<Rightarrow> fval \<Rightarrow> fval" where
  "fmul (Num a) (Num b) = Num (a * b)"
| "fmul _ _ = NaN"

text \<open>Lines 196-202 of \<^verbatim>\<open>_correlate2d_chunk\<close>: the sum \<^verbatim>\<open>v\<close> with the kernel index \<^verbatim>\<open>ki\<close>.\<close>

definition correlate_step :: "fval grid \<Rightarrow> fval list \<Rightarrow> int \<Rightarrow> int \<Rightarrow> nat \<times> fval
                                \<Rightarrow> nat \<times> fval" where
  "correlate_step chunk kern kr kc st =
     (case st of (ki, v) \<Rightarrow>
        (let val = cell chunk kr kc
         in (ki + 1, if \<not> isnan val then fadd v (fmul (kern ! ki) (cell chunk kr kc)) else v)))"

definition correlate_cell :: "fval grid \<Rightarrow> fval list \<Rightarrow> int \<Rightarrow> int
                                \<Rightarrow> int \<Rightarrow> int \<Rightarrow> int \<Rightarrow> int \<Rightarrow> fval" where
  "correlate_cell chunk kern r c kr_top kr_bot kc_left kc_right =
     snd (fold (\<lambda>kr st. fold (\<lambda>kc st. correlate_step chunk kern kr kc st)
                             (py_range (c - kc_left) (c + kc_right + 1)) st)
               (py_range (r - kr_top) (r + kr_bot + 1))
               (0, Num 0))"

text \<open>Lines 175-204; the chunk is a float array here.\<close>

definition correlate2d_chunk :: "fval grid \<Rightarrow> fval grid \<Rightarrow> fval option grid" where
  "correlate2d_chunk chunk kern =
     (let out = empty_like chunk;
          rows = int (nrows chunk); cols = int (ncols chunk);
          krows = int (nrows kern); kcols = int (ncols kern);
          kr_top = (krows - 1) div 2;
          kr_bot = krows div 2;
          kc_left = (kcols - 1) div 2;
          kc_right = kcols div 2;
          r_ovlp = max kr_top kr_bot;
          c_ovlp = max kc_left kc_right;
          kflat = concat kern
      in fold (\<lambda>r out.
                 fold (\<lambda>c out.
                         set_cell out r c
                           (correlate_cell chunk kflat r c kr_top kr_bot kc_left kc_right))
                      (py_range c_ovlp (cols - c_ovlp)) out)
              (py_range r_ovlp (rows - r_ovlp)) out)"

text \<open>Lines 207-218.\<close>

definition get_offsets :: "nat \<times> nat \<Rightarrow> (int \<times> int) \<times> (int \<times> int)" where
  "get_offsets kernel_shape =
     (case kernel_shape of (krows, kcols) \<Rightarrow>
        (let kr_top = (int krows - 1) div 2;
             kr_bot = int krows div 2;
             kc_left = (int kcols - 1) div 2;
             kc_right = int kcols div 2
         in ((kr_top, kr_bot), (kc_left, kc_right))))"

definition shape :: "'a grid \<Rightarrow> nat \<times> nat" where
  "shape g = (nrows g, ncols g)"

text \<open>
  \<^verbatim>\<open>map_overlap\<close> of dask, with its default \<^verbatim>\<open>trim=True\<close>: every tile is extended by
  \<^verbatim>\<open>depth\<close> cells on each side (from its neighbours, or from the boundary rule at the
  edge of the array), the function is applied, and \<^verbatim>\<open>depth\<close> cells are cut from each side
  of what it returns.
\<close>

definition trim :: "nat \<Rightarrow> nat \<Rightarrow> 'a grid \<Rightarrow> 'a grid" where
  "trim rdepth cdepth g =
     map (\<lambda>row. take (length row - 2 * cdepth) (drop cdepth row))
         (take (length g - 2 * rdepth) (drop rdepth g))"

definition overlap_tile :: "('a grid \<Rightarrow> 'b grid) \<Rightarrow> nat \<Rightarrow> nat \<Rightarrow> 'a grid \<Rightarrow> 'b grid" where
  "overlap_tile chunk_func rdepth cdepth tile = trim rdepth cdepth (chunk_func tile)"

text \<open>The depths that \<^verbatim>\<open>_focal_dask_map\<close> hands to \<^verbatim>\<open>map_overlap\<close> (lines 222-226).\<close>

definition rpad :: "'a grid \<Rightarrow> nat" where
  "rpad kern = (let offsets = get_offsets (shape kern)
                  in nat (max (fst (fst offsets)) (snd (fst offsets))))"

definition cpad :: "'a grid \<Rightarrow> nat" where
  "cpad kern = (let offsets = get_offsets (shape kern)
                  in nat (max (fst (snd offsets)) (snd (snd offsets))))"

text \<open>Lines 221-233 on one padded tile.\<close>

definition focal_dask_map_tile :: "(fval grid \<Rightarrow> 'b grid) \<Rightarrow> 'k grid \<Rightarrow> fval grid \<Rightarrow> 'b grid" where
  "focal_dask_map_tile chunk_func kern tile =
     overlap_tile chunk_func (rpad kern) (cpad kern) tile"

text \<open>
  What one source cell adds to a weighted sum that skips the masked cells: the weight
  times the value, and nothing for a NaN cell.
\<close>

fun the_num :: "fval \<Rightarrow> real" where
  "the_num (Num v) = v"
| "the_num NaN = 0"

definition contribution :: "fval \<Rightarrow> fval \<Rightarrow> real" where
  "contribution w v = (if isnan v then 0 else the_num w * the_num v)"

subsection \<open>Arrays, rasters and the store\<close>

datatype dtype = Bool_dt | Int_dt nat | Float_dt nat

text \<open>
  Modelled from the spec: the dtype tests \<^verbatim>\<open>is_bool\<close>, \<^verbatim>\<open>is_int\<close> and \<^verbatim>\<open>is_float\<close> of \<^verbatim>\<open>_utils\<close>
  are not part of the sources at hand; they tell boolean, integer and floating dtypes
  apart.
\<close>

fun is_bool_dtype :: "dtype \<Rightarrow> bool" where
  "is_bool_dtype Bool_dt = True"
| "is_bool_dtype _ = False"

fun is_int_dtype :: "dtype \<Rightarrow> bool" where
  "is_int_dtype (Int_dt _) = True"
| "is_int_dtype _ = False"

fun is_float_dtype :: "dtype \<Rightarrow> bool" where
  "is_float_dtype (Float_dt _) = True"
| "is_float_dtype _ = False"

text \<open>A two-dimensional array with its dtype, and a stack of bands with its dtype.\<close>

type_synonym plane = "dtype \<times> fval grid"

record darray =
  dt :: dtype
  bands :: "fval grid list"

text \<open>The edge rule handed to \<^verbatim>\<open>map_overlap\<close>: a name or a fill value.\<close>

datatype boundary = BName string | BValue fval

text \<open>
  What the libraries around the engine compute, taken as given: the float width that
  \<^verbatim>\<open>promote_dtype_to_float\<close> picks for a dtype, numpy's conversion of a value to a dtype,
  the halo that dask puts around an array for an edge rule and a depth, the content of a
  cell of \<^verbatim>\<open>np.empty_like\<close> that was never written, and the filters of \<^verbatim>\<open>dask_image\<close>.
\<close>

record ext =
  float_bits :: "dtype \<Rightarrow> nat"
  cast_value :: "dtype \<Rightarrow> fval \<Rightarrow> fval"
  halo :: "boundary \<Rightarrow> nat \<Rightarrow> nat \<Rightarrow> fval grid \<Rightarrow> fval grid"
  uninit :: fval
  nd_correlate :: "plane \<Rightarrow> plane \<Rightarrow> string \<Rightarrow> fval \<Rightarrow> int list \<Rightarrow> plane"
  nd_minimum_filter :: "plane \<Rightarrow> bool grid \<Rightarrow> string \<Rightarrow> plane"
  nd_maximum_filter :: "plane \<Rightarrow> bool grid \<Rightarrow> string \<Rightarrow> plane"

text \<open>
  Modelled from the spec: \<^verbatim>\<open>_types.promote_dtype_to_float\<close> and \<^verbatim>\<open>_types.promote_data_dtype\<close>
  are not part of the sources at hand.  The spec has integer payloads promoted to a
  floating dtype: a float dtype is kept, any other dtype becomes a float dtype, and the
  data is converted to the promoted dtype.
\<close>

definition promote_dtype_to_float :: "ext \<Rightarrow> dtype \<Rightarrow> dtype" where
  "promote_dtype_to_float E d = (if is_float_dtype d then d else Float_dt (float_bits E d))"

text \<open>
  \<^verbatim>\<open>astype\<close>: the values converted.  Nothing changes under the dtype the array has, nor
  from one float dtype to another (values being real numbers here).
\<close>

definition convert :: "ext \<Rightarrow> dtype \<Rightarrow> dtype \<Rightarrow> fval \<Rightarrow> fval" where
  "convert E src dst v =
     (if src = dst \<or> (is_float_dtype src \<and> is_float_dtype dst) then v else cast_value E dst v)"

definition astype_plane :: "ext \<Rightarrow> dtype \<Rightarrow> plane \<Rightarrow> plane" where
  "astype_plane E d p = (d, map (map (convert E (fst p) d)) (snd p))"

definition astype :: "ext \<Rightarrow> dtype \<Rightarrow> darray \<Rightarrow> darray" where
  "astype E d a = \<lparr>dt = d, bands = map (map (map (convert E (dt a) d))) (bands a)\<rparr>"

definition promote_data_dtype :: "ext \<Rightarrow> plane \<Rightarrow> plane" where
  "promote_data_dtype E p = astype_plane E (promote_dtype_to_float E (fst p)) p"

text \<open>
  A raster object refers to its data array by address; its null mask (one boolean grid
  per band, of the shape of the data) and its null value are never written by the
  functions of this module.  The store holds the array objects and the raster objects,
  an address being an index.
\<close>

record raster_obj =
  data_ref :: nat
  null_mask :: "bool grid list"
  null_value :: "fval option"

record store =
  arrays :: "darray list"
  rasters :: "raster_obj list"

definition alloc_array :: "store \<Rightarrow> darray \<Rightarrow> nat \<times> store" where
  "alloc_array s a = (length (arrays s), s\<lparr>arrays := arrays s @ [a]\<rparr>)"

text \<open>\<^verbatim>\<open>Raster._masked\<close> (raster.py, line 641).\<close>

definition masked :: "store \<Rightarrow> nat \<Rightarrow> bool" where
  "masked s r = (null_value (rasters s ! r) \<noteq> None)"

definition raster_dtype :: "store \<Rightarrow> nat \<Rightarrow> dtype" where
  "raster_dtype s r = dt (arrays s ! data_ref (rasters s ! r))"

text \<open>
  \<^verbatim>\<open>Raster.copy\<close> (raster.py, lines 945-947 and 564-567): a new raster object on a deep copy
  of the dataset, so on an array object of its own.
\<close>

definition copy_raster :: "store \<Rightarrow> nat \<Rightarrow> nat \<times> store" where
  "copy_raster s r =
     (let obj = rasters s ! r;
          (a, s1) = alloc_array s (arrays s ! data_ref obj)
      in (length (rasters s1), s1\<lparr>rasters := rasters s1 @ [obj\<lparr>data_ref := a\<rparr>]\<rparr>))"

text \<open>\<^verbatim>\<open>rs._rs.data = data\<close>: the raster object is pointed at an array object.\<close>

definition set_data :: "store \<Rightarrow> nat \<Rightarrow> nat \<Rightarrow> store" where
  "set_data s rs data = s\<lparr>rasters := (rasters s)[rs := (rasters s ! rs)\<lparr>data_ref := data\<rparr>]\<rparr>"

text \<open>\<^verbatim>\<open>data.astype(d)\<close> gives a new array object.\<close>

definition astype_new :: "ext \<Rightarrow> store \<Rightarrow> nat \<Rightarrow> dtype \<Rightarrow> nat \<times> store" where
  "astype_new E s data d = alloc_array s (astype E d (arrays s ! data))"

text \<open>
  \<^verbatim>\<open>da.where(~mask, data, np.nan)\<close> and \<^verbatim>\<open>da.where(mask, np.nan, data)\<close> on float data: a new
  array object, NaN at the masked cells.
\<close>

definition nan_where :: "bool grid list \<Rightarrow> darray \<Rightarrow> darray" where
  "nan_where m a =
     a\<lparr>bands := map2 (\<lambda>mb b. map2 (\<lambda>mrow row. map2 (\<lambda>mc v. if mc then NaN else v) mrow row) mb b)
                     m (bands a)\<rparr>"

definition where_new :: "store \<Rightarrow> bool grid list \<Rightarrow> nat \<Rightarrow> nat \<times> store" where
  "where_new s m data = alloc_array s (nan_where m (arrays s ! data))"

text \<open>
  \<^verbatim>\<open>data[bnd]\<close> read, and \<^verbatim>\<open>data[bnd] = value\<close>: the array object keeps its dtype and the
  value is converted to it.  \<^verbatim>\<open>put_array\<close> is the write in place: the object at an address
  holds a new content, for everyone who refers to that address.
\<close>

definition getitem :: "darray \<Rightarrow> nat \<Rightarrow> plane" where
  "getitem a bnd = (dt a, bands a ! bnd)"

definition setitem :: "ext \<Rightarrow> darray \<Rightarrow> nat \<Rightarrow> plane \<Rightarrow> darray" where
  "setitem E a bnd v = a\<lparr>bands := (bands a)[bnd := snd (astype_plane E (dt a) v)]\<rparr>"

definition put_array :: "store \<Rightarrow> nat \<Rightarrow> darray \<Rightarrow> store" where
  "put_array s data a = s\<lparr>arrays := (arrays s)[data := a]\<rparr>"

text \<open>What a caller holds of a raster: the content of its data array, its mask, its null value.\<close>

definition raster_content :: "store \<Rightarrow> nat \<Rightarrow> darray \<times> bool grid list \<times> fval option" where
  "raster_content s r =
     (arrays s ! data_ref (rasters s ! r), null_mask (rasters s ! r), null_value (rasters s ! r))"

text \<open>What a caller sees of a call: the exception, or the content of the raster returned.\<close>

definition result_view :: "store \<times> (error + nat)
                            \<Rightarrow> error + darray \<times> bool grid list \<times> fval option" where
  "result_view out =
     (case out of (s, res) \<Rightarrow>
        (case res of Inl e \<Rightarrow> Inl e | Inr rs \<Rightarrow> Inr (raster_content s rs)))"

text \<open>A raster of the store: its object and its data array are there.\<close>

definition valid_raster :: "store \<Rightarrow> nat \<Rightarrow> bool" where
  "valid_raster s r = (r < length (rasters s) \<and> data_ref (rasters s ! r) < length (arrays s))"

subsection \<open>The focal engine\<close>

text \<open>A kernel as the caller hands it over: an array of some dimension with its dtype.\<close>

record kernel_array =
  kdt :: dtype
  ndim :: nat
  weights :: "fval grid"

text \<open>Lines 247-253; the argument is an array here, so the TypeError cannot arise.\<close>

definition check_kernel :: "kernel_array \<Rightarrow> error option" where
  "check_kernel k =
     (if ndim k \<noteq> 2 then Some ValueError
      else if \<exists>row \<in> set (weights k). \<exists>w \<in> set row. isnan w then Some ValueError
      else None)"

definition astype_kernel :: "ext \<Rightarrow> dtype \<Rightarrow> kernel_array \<Rightarrow> kernel_array" where
  "astype_kernel E d k = k\<lparr>kdt := d, weights := map (map (convert E (kdt k) d)) (weights k)\<rparr>"

text \<open>A boolean window as an array, and the truth value of an array entry.\<close>

definition window_kernel :: "bool grid \<Rightarrow> kernel_array" where
  "window_kernel w =
     \<lparr>kdt = Bool_dt, ndim = 2, weights = map (map (\<lambda>b. if b then Num 1 else Num 0)) w\<rparr>"

definition truthy :: "fval grid \<Rightarrow> bool grid" where
  "truthy g = map (map (\<lambda>v. v \<noteq> Num 0)) g"

text \<open>
  Lines 221-233 on a whole array, taken as one tile: the halo of the edge rule, the chunk
  function, the trimming of \<^verbatim>\<open>map_overlap\<close>; the result has the dtype of the data.
\<close>

definition focal_dask_map :: "ext \<Rightarrow> plane \<Rightarrow> (fval grid \<Rightarrow> fval option grid) \<Rightarrow> 'k grid
                                \<Rightarrow> boundary \<Rightarrow> plane" where
  "focal_dask_map E data chunk_func kern bnd =
     (fst data,
      map (map (\<lambda>c. case c of Some v \<Rightarrow> v | None \<Rightarrow> uninit E))
          (focal_dask_map_tile chunk_func kern
             (halo E bnd (rpad kern) (cpad kern) (snd data))))"

text \<open>
  The slots of \<^verbatim>\<open>kernel_values\<close> after \<^verbatim>\<open>fill(np.nan)\<close>, by the dtype of the chunk: NaN in a
  float buffer; in a buffer of another dtype some integers, which the program does not
  determine and which may differ from slot to slot, from cell to cell and from call to
  call.  \<^verbatim>\<open>unset r c ki\<close> stands for the integer found in slot \<^verbatim>\<open>ki\<close> at the output cell
  \<^verbatim>\<open>(r, c)\<close> during one run of \<^verbatim>\<open>_focal_chunk\<close>.
\<close>

definition nan_filled :: "dtype \<Rightarrow> (int \<Rightarrow> int \<Rightarrow> nat \<Rightarrow> int) \<Rightarrow> int \<Rightarrow> int \<Rightarrow> nat \<Rightarrow> fval" where
  "nan_filled d unset r c ki = (if is_float_dtype d then NaN else Num (real_of_int (unset r c ki)))"

text \<open>
  Lines 236-244.  A call of the focal branch without a function is a TypeError.  The
  correlate branch has no buffer to fill and makes no use of \<^verbatim>\<open>unset\<close>.
\<close>

definition focal_dispatch :: "ext \<Rightarrow> (int \<Rightarrow> int \<Rightarrow> nat \<Rightarrow> int) \<Rightarrow> string \<Rightarrow> plane \<Rightarrow> kernel_array
                                \<Rightarrow> (fval list \<Rightarrow> fval) option \<Rightarrow> boundary \<Rightarrow> error + plane" where
  "focal_dispatch E unset operation data kern kernel_func bnd =
     (if operation = ''correlate'' then
        Inr (focal_dask_map E data (\<lambda>chunk. correlate2d_chunk chunk (weights kern))
               (weights kern) bnd)
      else
        (case kernel_func of
           None \<Rightarrow> Inl TypeError
         | Some func \<Rightarrow>
             Inr (focal_dask_map E data
                    (\<lambda>chunk. focal_chunk (nan_filled (fst data) unset)
                                (convert E (Float_dt 64) (fst data)) chunk
                                (truthy (weights kern)) func)
                    (weights kern) bnd)))"

definition MODE_TO_DASK_BOUNDARY :: "(string \<times> string) list" where
  "MODE_TO_DASK_BOUNDARY =
     [(''reflect'', ''reflect''), (''nearest'', ''nearest''), (''wrap'', ''periodic''),
      (''constant'', ''constant'')]"

definition VALID_CORRELATE_MODES :: "string list" where
  "VALID_CORRELATE_MODES = map fst MODE_TO_DASK_BOUNDARY"

text \<open>Lines 272-324, the function \<^verbatim>\<open>_correlate\<close>; the data is a two-dimensional array.\<close>

definition correlate_2d :: "ext \<Rightarrow> plane \<Rightarrow> kernel_array \<Rightarrow> string \<Rightarrow> fval \<Rightarrow> bool
                              \<Rightarrow> error + plane" where
  "correlate_2d E data0 kern0 mode cval nan_aware =
     (case check_kernel kern0 of
        Some e \<Rightarrow> Inl e
      | None \<Rightarrow>
          if mode \<notin> set VALID_CORRELATE_MODES then Inl ValueError
          else
            let data1 = (if nan_aware then promote_data_dtype E data0 else data0);
                kern1 = (if is_bool_dtype (kdt kern0) then astype_kernel E (Int_dt 64) kern0
                         else kern0);
                kern2 = (if is_float_dtype (fst data1) \<and> is_int_dtype (kdt kern1)
                         then astype_kernel E (fst data1) kern1 else kern1);
                data2 = (if is_int_dtype (fst data1) \<and> is_float_dtype (kdt kern2)
                         then promote_data_dtype E data1 else data1)
            in if nan_aware then
                 (case map_of MODE_TO_DASK_BOUNDARY mode of
                    None \<Rightarrow> Inl KeyError
                  | Some b \<Rightarrow>
                      focal_dispatch E (\<lambda>r c ki. 0) ''correlate'' data2 kern2 None
                        (if b = ''constant'' then BValue cval else BName b))
               else
                 let shift_origin = map (\<lambda>d. d mod 2 = 0)
                                        [nrows (weights kern2), ncols (weights kern2)];
                     origin = map (\<lambda>shift. if shift then - 1 else 0) shift_origin
                 in Inr (nd_correlate E data2 (kdt kern2, weights kern2) mode cval origin))"

definition FOCAL_PROMOTING_OPS :: "string list" where
  "FOCAL_PROMOTING_OPS = [''asm'', ''entropy'', ''mean'', ''median'', ''std'', ''var'']"

definition FOCAL_STATS :: "string list" where
  "FOCAL_STATS =
     [''asm'', ''entropy'', ''max'', ''mean'', ''median'', ''mode'', ''min'', ''std'', ''sum'',
      ''var'', ''unique'']"

text \<open>
  Lines 357-411, the function \<^verbatim>\<open>_focal\<close>.  The chain of \<^verbatim>\<open>elif\<close> ends without a value, which
  the caller cannot store: a TypeError.  \<^verbatim>\<open>unset\<close> is what an integer buffer of the tile
  kernel holds during this call.
\<close>

definition focal_2d :: "ext \<Rightarrow> (int \<Rightarrow> int \<Rightarrow> nat \<Rightarrow> int) \<Rightarrow> plane \<Rightarrow> kernel_array \<Rightarrow> string \<Rightarrow> bool
                          \<Rightarrow> error + plane" where
  "focal_2d E unset data0 kern0 stat nan_aware =
     (if stat \<notin> set FOCAL_STATS then Inl ValueError
      else
        (case check_kernel kern0 of
           Some e \<Rightarrow> Inl e
         | None \<Rightarrow>
             let data = (if nan_aware \<or> stat \<in> set FOCAL_PROMOTING_OPS
                         then promote_data_dtype E data0 else data0);
                 kern = astype_kernel E Bool_dt kern0
             in if stat = ''asm'' then
                  focal_dispatch E unset ''focal'' data kern (Some agg_nan_asm) (BValue NaN)
                else if stat = ''entropy'' then
                  focal_dispatch E unset ''focal'' data kern (Some agg_nan_entropy) (BValue NaN)
                else if stat = ''min'' then
                  (if \<not> nan_aware
                   then Inr (nd_minimum_filter E data (truthy (weights kern)) ''nearest'')
                   else focal_dispatch E unset ''focal'' data kern (Some agg_nan_min) (BValue NaN))
                else if stat = ''max'' then
                  (if \<not> nan_aware
                   then Inr (nd_maximum_filter E data (truthy (weights kern)) ''nearest'')
                   else focal_dispatch E unset ''focal'' data kern (Some agg_nan_max) (BValue NaN))
                else if stat = ''mode'' then
                  focal_dispatch E unset ''focal'' data kern (Some agg_nan_mode) (BValue NaN)
                else if stat = ''mean'' then
                  focal_dispatch E unset ''focal'' data kern (Some agg_nan_mean) (BValue NaN)
                else if stat = ''median'' then
                  focal_dispatch E unset ''focal'' data kern (Some agg_nan_median) (BValue NaN)
                else if stat = ''std'' then
                  focal_dispatch E unset ''focal'' data kern (Some agg_nan_std) (BValue NaN)
                else if stat = ''var'' then
                  focal_dispatch E unset ''focal'' data kern (Some agg_nan_var) (BValue NaN)
                else if stat = ''sum'' then
                  (if \<not> nan_aware
                   then Inr (nd_correlate E data (kdt kern, weights kern) ''constant'' (Num 0) [0, 0])
                   else focal_dispatch E unset ''focal'' data kern (Some agg_nan_sum) (BValue NaN))
                else if stat = ''unique'' then
                  focal_dispatch E unset ''focal'' data kern (Some agg_nan_unique) (BValue NaN)
                else Inl TypeError))"

text \<open>
  The loop of lines 494-495: \<^verbatim>\<open>data[bnd] = _focal(data[bnd], window, focal_type, masked)\<close>,
  band after band, on the content of the array object \<^verbatim>\<open>data\<close>; an exception ends it,
  the bands written so far staying written.  \<^verbatim>\<open>unset bnd\<close> is what an integer buffer holds
  while band \<^verbatim>\<open>bnd\<close> is processed.
\<close>

fun focal_bands :: "ext \<Rightarrow> (nat \<Rightarrow> int \<Rightarrow> int \<Rightarrow> nat \<Rightarrow> int) \<Rightarrow> darray \<Rightarrow> kernel_array \<Rightarrow> string
                      \<Rightarrow> bool \<Rightarrow> nat list \<Rightarrow> darray \<times> error option" where
  "focal_bands E unset a window focal_type nan_aware [] = (a, None)"
| "focal_bands E unset a window focal_type nan_aware (bnd # bnds) =
     (case focal_2d E (unset bnd) (getitem a bnd) window focal_type nan_aware of
        Inl e \<Rightarrow> (a, Some e)
      | Inr v \<Rightarrow> focal_bands E unset (setitem E a bnd v) window focal_type nan_aware bnds)"

text \<open>
  Lines 414-502.  The first argument is a raster (the address of a raster object); a
  path string would be opened first, which is outside this module.  \<^verbatim>\<open>unset\<close> is what the
  integer buffers of the tile kernel hold during this call of \<^verbatim>\<open>focal\<close>; it is not an
  argument of the Python function.
\<close>

definition focal :: "ext \<Rightarrow> (nat \<Rightarrow> int \<Rightarrow> int \<Rightarrow> nat \<Rightarrow> int) \<Rightarrow> store \<Rightarrow> nat \<Rightarrow> string
                       \<Rightarrow> width_or_radius \<Rightarrow> pyval option \<Rightarrow> store \<times> (error + nat)" where
  "focal E unset s0 raster focal_type w height =
     (if focal_type \<notin> set FOCAL_STATS then (s0, Inl ValueError)
      else
        (case get_focal_window w height of
           Inl e \<Rightarrow> (s0, Inl e)
         | Inr window \<Rightarrow>
             let (rs, s1) = copy_raster s0 raster;
                 data1 = data_ref (rasters s1 ! rs);
                 final_dtype = dt (arrays s1 ! data1);
                 (upcast, data3, s3) =
                   (if masked s1 raster then
                      let new_dtype = promote_dtype_to_float E (raster_dtype s1 raster);
                          upcast = (new_dtype \<noteq> dt (arrays s1 ! data1));
                          (data2, s2) = (if upcast then astype_new E s1 data1 new_dtype
                                         else (data1, s1));
                          (data3, s3) = where_new s2 (null_mask (rasters s2 ! raster)) data2
                      in (upcast, data3, s3)
                    else (False, data1, s1))
             in (case focal_bands E unset (arrays s3 ! data3) (window_kernel window) focal_type
                        (masked s3 raster) [0..<length (bands (arrays s3 ! data3))] of
                   (a4, Some e) \<Rightarrow> (put_array s3 data3 a4, Inl e)
                 | (a4, None) \<Rightarrow>
                     let s4 = put_array s3 data3 a4;
                         (data5, s5) =
                           (if upcast \<and> focal_type \<notin> set FOCAL_PROMOTING_OPS
                            then astype_new E s4 data3 final_dtype else (data3, s4))
                     in (set_data s5 rs data5, Inr rs))))"

text \<open>The loop of lines 651-654, as \<^verbatim>\<open>focal_bands\<close>.\<close>

fun correlate_bands :: "ext \<Rightarrow> darray \<Rightarrow> kernel_array \<Rightarrow> string \<Rightarrow> fval \<Rightarrow> bool \<Rightarrow> nat list
                          \<Rightarrow> darray \<times> error option" where
  "correlate_bands E a kern mode cval nan_aware [] = (a, None)"
| "correlate_bands E a kern mode cval nan_aware (bnd # bnds) =
     (case correlate_2d E (getitem a bnd) kern mode cval nan_aware of
        Inl e \<Rightarrow> (a, Some e)
      | Inr v \<Rightarrow> correlate_bands E (setitem E a bnd v) kern mode cval nan_aware bnds)"

text \<open>Lines 593-661; \<^verbatim>\<open>np.asarray(kernel)\<close> has been applied to the kernel.\<close>

definition correlate :: "ext \<Rightarrow> store \<Rightarrow> nat \<Rightarrow> kernel_array \<Rightarrow> string \<Rightarrow> fval
                           \<Rightarrow> store \<times> (error + nat)" where
  "correlate E s0 raster kern mode cval =
     (case check_kernel kern of
        Some e \<Rightarrow> (s0, Inl e)
      | None \<Rightarrow>
          let (rs, s1) = copy_raster s0 raster;
              s2 = (if is_float_dtype (kdt kern) \<and> is_int_dtype (raster_dtype s1 rs)
                    then (let (a, s) = astype_new E s1 (data_ref (rasters s1 ! rs)) (Float_dt 64)
                          in set_data s rs a)
                    else s1);
              data2 = data_ref (rasters s2 ! rs);
              final_dtype = dt (arrays s2 ! data2);
              (upcast, data4, s4) =
                (if masked s2 raster then
                   let new_dtype = promote_dtype_to_float E (dt (arrays s2 ! data2));
                       upcast = (new_dtype \<noteq> dt (arrays s2 ! data2));
                       (data3, s3) = (if upcast then astype_new E s2 data2 new_dtype
                                      else (data2, s2));
                       (data4, s4) = where_new s3 (null_mask (rasters s3 ! raster)) data3
                   in (upcast, data4, s4)
                 else (False, data2, s2))
          in (case correlate_bands E (arrays s4 ! data4) kern mode cval (masked s4 rs)
                     [0..<length (bands (arrays s4 ! data4))] of
                (a5, Some e) \<Rightarrow> (put_array s4 data4 a5, Inl e)
              | (a5, None) \<Rightarrow>
                  let s5 = put_array s4 data4 a5;
                      (data6, s6) = (if upcast then astype_new E s5 data4 final_dtype
                                     else (data4, s5))
                  in (set_data s6 rs data6, Inr rs)))"

text \<open>\<^verbatim>\<open>kernel[::-1, ::-1]\<close>: both axes of a two-dimensional array reversed.\<close>

definition flip_kernel :: "kernel_array \<Rightarrow> kernel_array" where
  "flip_kernel k = k\<lparr>weights := rev (map rev (weights k))\<rparr>"

text \<open>Lines 664-703.\<close>

definition convolve :: "ext \<Rightarrow> store \<Rightarrow> nat \<Rightarrow> kernel_array \<Rightarrow> string \<Rightarrow> fval
                          \<Rightarrow> store \<times> (error + nat)" where
  "convolve E s raster kern mode cval =
     (case check_kernel kern of
        Some e \<Rightarrow> (s, Inl e)
      | None \<Rightarrow> correlate E s raster (flip_kernel kern) mode cval)"

text \<open>
  Two calls on the same raster of the store, one after the other, leave their input
  alone when nothing that was in the store before a call is changed by it, so the input
  raster holds what it held, each raster returned is a new one, and the raster the first
  call returned is untouched by the second.  They give the same result when the second
  call shows the caller what the first one did.
\<close>

definition leaves_input_unchanged :: "(store \<Rightarrow> nat \<Rightarrow> store \<times> (error + nat))
                                        \<Rightarrow> (store \<Rightarrow> nat \<Rightarrow> store \<times> (error + nat))
                                        \<Rightarrow> store \<Rightarrow> nat \<Rightarrow> bool" where
  "leaves_input_unchanged first_call second_call s r =
     (case first_call s r of (s1, res1) \<Rightarrow>
        (case second_call s1 r of (s2, res2) \<Rightarrow>
           take (length (arrays s)) (arrays s1) = arrays s
         \<and> take (length (rasters s)) (rasters s1) = rasters s
         \<and> take (length (arrays s1)) (arrays s2) = arrays s1
         \<and> take (length (rasters s1)) (rasters s2) = rasters s1
         \<and> raster_content s1 r = raster_content s r
         \<and> raster_content s2 r = raster_content s r
         \<and> (case res1 of
               Inl e \<Rightarrow> True
             | Inr rs \<Rightarrow> rs \<noteq> r \<and> raster_content s2 rs = raster_content s1 rs)
         \<and> (case res2 of Inl e \<Rightarrow> True | Inr rs \<Rightarrow> rs \<noteq> r)))"

definition same_result :: "(store \<Rightarrow> nat \<Rightarrow> store \<times> (error + nat))
                             \<Rightarrow> (store \<Rightarrow> nat \<Rightarrow> store \<times> (error + nat))
                             \<Rightarrow> store \<Rightarrow> nat \<Rightarrow> bool" where
  "same_result first_call second_call s r =
     (case first_call s r of (s1, res1) \<Rightarrow>
        result_view (second_call s1 r) = result_view (s1, res1))"

text \<open>
  A halo of one value around an array, as dask lays it for a fill value at the edge of
  the array; used where a concrete edge rule is needed.
\<close>

definition constant_halo :: "fval \<Rightarrow> nat \<Rightarrow> nat \<Rightarrow> fval grid \<Rightarrow> fval grid" where
  "constant_halo v rdepth cdepth g =
     (let blank = replicate (cdepth + ncols g + cdepth) v
      in replicate rdepth blank
         @ map (\<lambda>row. replicate cdepth v @ row @ replicate cdepth v) g
         @ replicate rdepth blank)"

section \<open>Properties of the window builder\<close>

text \<open>The test on the distance, decided on the integers.\<close>

lemma rxy_le_iff: "0 \<le> r \<Longrightarrow> rxy_le x y r \<longleftrightarrow> (x - r)\<^sup>2 + (y - r)\<^sup>2 \<le> r\<^sup>2"
proof -
  assume r: "0 \<le> r"
  define n where "n = (x - r)\<^sup>2 + (y - r)\<^sup>2"
  have "sqrt (real_of_int n) \<le> real_of_int r \<longleftrightarrow> real_of_int n \<le> (real_of_int r)\<^sup>2"
    using r by (auto intro: real_le_lsqrt dest: sqrt_le_D)
  also have "\<dots> \<longleftrightarrow> n \<le> r\<^sup>2"
    by (metis of_int_le_iff of_int_power)
  finally show ?thesis by (simp add: rxy_le_def n_def)
qed

lemma rxy_le_code [code]:
  "rxy_le x y r = (if 0 \<le> r then (x - r)\<^sup>2 + (y - r)\<^sup>2 \<le> r\<^sup>2 else False)"
proof (cases "0 \<le> r")
  case True
  then show ?thesis by (simp add: rxy_le_iff)
next
  case False
  define n where "n = (x - r)\<^sup>2 + (y - r)\<^sup>2"
  have "0 \<le> n" by (simp add: n_def)
  then have "0 \<le> sqrt (real_of_int n)" by simp
  moreover have "real_of_int r < 0" using False by simp
  ultimately have "\<not> sqrt (real_of_int n) \<le> real_of_int r" by linarith
  with False show ?thesis unfolding rxy_le_def n_def by simp
qed

lemma py_range_0: "py_range 0 n = map int [0..<nat n]"
  by (simp add: py_range_def)

lemma circle_window_eq:
  "circle_window r = map (\<lambda>x. map (\<lambda>y. rxy_le (int x) (int y) (r - 1)) [0..<nat (2 * r - 1)]) [0..<nat (2 * r - 1)]"
proof -
  have w: "(r - 1) * 2 + 1 = 2 * r - 1" by simp
  have d: "((2 * r - 1) - 1) div 2 = r - 1" by simp
  show ?thesis
    unfolding circle_window_def Let_def w d py_range_0 by (simp add: comp_def)
qed

lemma nrows_circle_window: "nrows (circle_window r) = nat (2 * r - 1)"
  by (simp add: circle_window_eq nrows_def)

lemma ncols_circle_window: "ncols (circle_window r) = nat (2 * r - 1)"
proof (cases "0 < nat (2 * r - 1)")
  case True
  then have "[0..<nat (2 * r - 1)] = 0 # [1..<nat (2 * r - 1)]"
    by (simp add: upt_conv_Cons)
  then show ?thesis
    unfolding circle_window_eq ncols_def
    by (metis (no_types, lifting) length_map length_upt list.simps(5) list.simps(9) minus_nat.diff_0)
next
  case False
  then show ?thesis by (simp add: circle_window_eq ncols_def)
qed

lemma rect_circle_window: "rect (circle_window r)"
  unfolding rect_def ncols_circle_window by (simp add: circle_window_eq list_all_iff)

lemma circle_window_nth:
  "x < nat (2 * r - 1) \<Longrightarrow> y < nat (2 * r - 1) \<Longrightarrow>
   circle_window r ! x ! y = rxy_le (int x) (int y) (r - 1)"
  by (simp add: circle_window_eq)

lemma get_focal_window_circle:
  "0 < r \<Longrightarrow> get_focal_window (Scalar (IntV r)) None = Inr (circle_window r)"
  by (simp add: get_focal_window_def check_sequence_def check_height_def build_window_def)

text \<open>
  Claim C3.  For every integer \<open>r > 0\<close> the window built from the single radius \<open>r\<close> is a
  \<open>(2r-1)\<close> by \<open>(2r-1)\<close> boolean grid whose cell \<open>(x, y)\<close> is true exactly when the
  Euclidean distance from \<open>(x, y)\<close> to the centre \<open>(r-1, r-1)\<close> is at most \<open>r-1\<close>.
\<close>

theorem circle_footprint:
  assumes "0 < r"
  shows "\<exists>w. get_focal_window (Scalar (IntV r)) None = Inr w
           \<and> nrows w = nat (2 * r - 1) \<and> ncols w = nat (2 * r - 1) \<and> rect w
           \<and> (\<forall>x < nat (2 * r - 1). \<forall>y < nat (2 * r - 1).
                 w ! x ! y \<longleftrightarrow>
                 sqrt (real_of_int ((int x - (r - 1))\<^sup>2 + (int y - (r - 1))\<^sup>2))
                   \<le> real_of_int (r - 1))"
proof -
  have "\<forall>x < nat (2 * r - 1). \<forall>y < nat (2 * r - 1).
          circle_window r ! x ! y \<longleftrightarrow>
          sqrt (real_of_int ((int x - (r - 1))\<^sup>2 + (int y - (r - 1))\<^sup>2)) \<le> real_of_int (r - 1)"
    by (simp add: circle_window_nth rxy_le_def)
  with assms show ?thesis
    using get_focal_window_circle nrows_circle_window ncols_circle_window rect_circle_window
    by blast
qed

theorem circle_footprint_witness:
  "(0::int) < 2 \<and> (\<exists>w. get_focal_window (Scalar (IntV 2)) None = Inr w
           \<and> nrows w = 3 \<and> ncols w = 3 \<and> rect w
           \<and> w = [[False, True, False], [True, True, True], [False, True, False]]
           \<and> (\<forall>x < 3. \<forall>y < 3.
                 w ! x ! y \<longleftrightarrow>
                 sqrt (real_of_int ((int x - 1)\<^sup>2 + (int y - 1)\<^sup>2)) \<le> 1))"
proof -
  have e: "get_focal_window (Scalar (IntV 2)) None
           = Inr [[False, True, False], [True, True, True], [False, True, False]]"
    by code_simp
  show ?thesis using circle_footprint [of 2] unfolding e by simp
qed
lemma map_length_circle_window:
  "map length (circle_window r) = replicate (nat (2 * r - 1)) (nat (2 * r - 1))"
  by (simp add: circle_window_eq comp_def map_replicate_const)

lemma map_length_np_pad:
  assumes "rect w" "0 \<le> b" "0 \<le> a" "np_pad w b a = Inr p"
  shows "map length p = replicate (nat b + nrows w + nat a) (nat b + ncols w + nat a)"
proof -
  have "map length w = replicate (length w) (ncols w)"
    using assms(1) unfolding rect_def list_all_iff
    by (simp add: map_replicate_const [symmetric] cong: map_cong)
  then have "map (\<lambda>row. nat b + length row + nat a) w
             = replicate (length w) (nat b + ncols w + nat a)"
    using assms(1) unfolding rect_def list_all_iff
    by (simp add: map_replicate_const [symmetric] cong: map_cong)
  then show ?thesis
    using assms(2-4) by (auto simp: np_pad_def Let_def nrows_def comp_def replicate_add [symmetric] ac_simps)
qed

lemma padded_row_nth:
  assumes "y < b + length row + a"
  shows "(replicate b False @ row @ replicate a False) ! y
         \<longleftrightarrow> b \<le> y \<and> y < b + length row \<and> row ! (y - b)"
proof -
  consider "y < b" | "b \<le> y" "y < b + length row" | "b + length row \<le> y"
    by linarith
  then show ?thesis
  proof cases
    case 1
    then show ?thesis by (simp add: nth_append)
  next
    case 2
    then have "y - b < length row" by linarith
    with 2 show ?thesis by (simp add: nth_append)
  next
    case 3
    then have "\<not> y < b" "\<not> y - b < length row" "y - b - length row < a"
      using assms by linarith+
    with 3 show ?thesis by (simp add: nth_append)
  qed
qed

lemma np_pad_nth:
  assumes "rect w" "0 \<le> b" "0 \<le> a" "np_pad w b a = Inr p"
    and x: "x < nat b + nrows w + nat a" and y: "y < nat b + ncols w + nat a"
  shows "p ! x ! y \<longleftrightarrow>
           nat b \<le> x \<and> x < nat b + nrows w \<and> nat b \<le> y \<and> y < nat b + ncols w
           \<and> w ! (x - nat b) ! (y - nat b)"
proof -
  define blank where "blank = replicate (nat b + ncols w + nat a) False"
  define mid where "mid = map (\<lambda>row. replicate (nat b) False @ row @ replicate (nat a) False) w"
  have p: "p = replicate (nat b) blank @ mid @ replicate (nat a) blank"
    using assms(2-4) by (simp add: np_pad_def Let_def blank_def mid_def)
  have len: "\<And>i. i < length w \<Longrightarrow> length (w ! i) = ncols w"
    using assms(1) by (simp add: rect_def list_all_length)
  have blank: "\<not> blank ! y" using y by (simp add: blank_def)
  consider "x < nat b" | "nat b \<le> x" "x < nat b + nrows w" | "nat b + nrows w \<le> x"
    by linarith
  then show ?thesis
  proof cases
    case 1
    then have "p ! x = blank" by (simp add: p nth_append)
    with 1 blank show ?thesis by simp
  next
    case 2
    then have i: "x - nat b < length w" by (simp add: nrows_def)
    have lm: "length mid = length w" by (simp add: mid_def)
    have "p ! x = mid ! (x - nat b)"
      using 2 i by (simp add: p nth_append lm nrows_def)
    also have "\<dots> = replicate (nat b) False @ w ! (x - nat b) @ replicate (nat a) False"
      using i by (simp add: mid_def)
    finally have "p ! x ! y = (replicate (nat b) False @ w ! (x - nat b) @ replicate (nat a) False) ! y"
      by simp
    then show ?thesis
      using 2 y len [OF i] padded_row_nth [of y "nat b" "w ! (x - nat b)" "nat a"] by simp
  next
    case 3
    then have f: "\<not> x < nat b" "\<not> x - nat b < length w" "x - nat b - length w < nat a"
      using x by (simp_all add: nrows_def)
    have "length mid = length w" by (simp add: mid_def)
    with f have "p ! x = blank"
      by (simp add: p nth_append)
    with 3 blank show ?thesis by simp
  qed
qed

lemma get_focal_window_annulus:
  assumes "0 < r1" "r1 < r2"
  shows "\<exists>p1. np_pad (circle_window r1) (r2 - r1) (r2 - r1) = Inr p1
           \<and> map length p1 = map length (circle_window r2)
           \<and> get_focal_window (Seq [IntV r1, IntV r2]) None
               = Inr (map2 (\<lambda>row2 row1. map2 (\<lambda>b2 b1. b2 \<and> \<not> b1) row2 row1)
                        (circle_window r2) p1)"
proof -
  obtain p1 where p1: "np_pad (circle_window r1) (r2 - r1) (r2 - r1) = Inr p1"
    using assms by (auto simp: np_pad_def Let_def)
  have len: "map length p1 = replicate (nat (r2 - r1) + nrows (circle_window r1) + nat (r2 - r1))
                          (nat (r2 - r1) + ncols (circle_window r1) + nat (r2 - r1))"
    using assms by (intro map_length_np_pad [OF rect_circle_window _ _ p1]) simp_all
  have size: "nat (r2 - r1) + nat (2 * r1 - 1) + nat (r2 - r1) = nat (2 * r2 - 1)"
    using assms by linarith
  have shape: "map length p1 = map length (circle_window r2)"
    unfolding len nrows_circle_window ncols_circle_window map_length_circle_window size ..
  have pad: "(int (nat (2 * r2 - 1)) - int (nat (2 * r1 - 1))) div 2 = r2 - r1"
    using assms by simp
  have "get_focal_window (Seq [IntV r1, IntV r2]) None
        = Inr (map2 (\<lambda>row2 row1. map2 (\<lambda>b2 b1. b2 \<and> \<not> b1) row2 row1)
                 (circle_window r2) p1)"
    using assms p1 shape
    by (simp add: get_focal_window_def check_sequence_def check_height_def build_window_def
        Let_def nrows_circle_window ncols_circle_window pad clear_where_def)
  with p1 shape show ?thesis by blast
qed

lemma map2_grid_nth:
  assumes "map length g = map length h" "x < length g" "y < length (g ! x)"
  shows "map2 (\<lambda>row2 row1. map2 f row2 row1) g h ! x ! y = f (g ! x ! y) (h ! x ! y)"
proof -
  have lg: "length h = length g" using assms(1) by (metis length_map)
  have "length (h ! x) = length (g ! x)"
    using assms(1,2) lg by (metis nth_map)
  then show ?thesis using assms(2,3) lg by simp
qed

lemma map_length_map2_grid:
  assumes "map length g = map length h"
  shows "map length (map2 (\<lambda>row2 row1. map2 f row2 row1) g h) = map length g"
proof (rule nth_equalityI)
  have lg: "length h = length g" using assms by (metis length_map)
  then show "length (map length (map2 (\<lambda>row2 row1. map2 f row2 row1) g h)) = length (map length g)"
    by simp
  fix i assume "i < length (map length (map2 (\<lambda>row2 row1. map2 f row2 row1) g h))"
  then have i: "i < length g" using lg by simp
  then have "length (h ! i) = length (g ! i)" using assms lg by (metis nth_map)
  then show "map length (map2 (\<lambda>row2 row1. map2 f row2 row1) g h) ! i = map length g ! i"
    using i lg by simp
qed

text \<open>
  Claim C7.  For integers \<open>0 < r1 < r2\<close> the window built from the pair \<open>(r1, r2)\<close> has
  the shape of the circle of radius \<open>r2\<close>; the circle of radius \<open>r1\<close>, padded with
  \<open>False\<close> by \<open>(size2 - size1) div 2\<close> cells on each side, has that shape too; every cell
  that is true in the padded inner circle is false in the annulus, and every true cell of
  the annulus is true in the circle of radius \<open>r2\<close>.
\<close>

theorem annulus_footprint:
  assumes "0 < r1" "r1 < r2"
  shows "\<exists>a c1 c2 p1.
           get_focal_window (Seq [IntV r1, IntV r2]) None = Inr a
         \<and> get_focal_window (Scalar (IntV r1)) None = Inr c1
         \<and> get_focal_window (Scalar (IntV r2)) None = Inr c2
         \<and> np_pad c1 ((int (nrows c2) - int (nrows c1)) div 2)
                      ((int (nrows c2) - int (nrows c1)) div 2) = Inr p1
         \<and> map length p1 = map length c2
         \<and> map length a = map length c2
         \<and> (\<forall>x < nrows c2. \<forall>y < ncols c2.
               (p1 ! x ! y \<longrightarrow> \<not> a ! x ! y) \<and> (a ! x ! y \<longrightarrow> c2 ! x ! y))"
proof -
  define c1 where "c1 = circle_window r1"
  define c2 where "c2 = circle_window r2"
  obtain p1 where p1: "np_pad c1 (r2 - r1) (r2 - r1) = Inr p1"
    and shape: "map length p1 = map length c2"
    and a: "get_focal_window (Seq [IntV r1, IntV r2]) None
            = Inr (map2 (\<lambda>row2 row1. map2 (\<lambda>b2 b1. b2 \<and> \<not> b1) row2 row1) c2 p1)"
    using get_focal_window_annulus [OF assms] unfolding c1_def c2_def by blast
  define a where "a = map2 (\<lambda>row2 row1. map2 (\<lambda>b2 b1. b2 \<and> \<not> b1) row2 row1) c2 p1"
  have g1: "get_focal_window (Scalar (IntV r1)) None = Inr c1"
    using assms by (simp add: get_focal_window_circle c1_def)
  have g2: "get_focal_window (Scalar (IntV r2)) None = Inr c2"
    using assms by (simp add: get_focal_window_circle c2_def)
  have pad: "(int (nrows c2) - int (nrows c1)) div 2 = r2 - r1"
    using assms by (simp add: c1_def c2_def nrows_circle_window)
  have la: "map length a = map length c2"
    unfolding a_def by (rule map_length_map2_grid [OF shape [symmetric]])
  have cells: "a ! x ! y = (c2 ! x ! y \<and> \<not> p1 ! x ! y)" if "x < nrows c2" "y < ncols c2" for x y
  proof -
    have "length (c2 ! x) = ncols c2"
      using that(1) rect_circle_window [of r2]
      by (simp add: c2_def rect_def list_all_length nrows_def)
    then show ?thesis
      unfolding a_def using that map2_grid_nth [OF shape [symmetric], of x y] by (simp add: nrows_def)
  qed
  have p1': "np_pad c1 ((int (nrows c2) - int (nrows c1)) div 2)
                       ((int (nrows c2) - int (nrows c1)) div 2) = Inr p1"
    using p1 pad by simp
  have "\<forall>x < nrows c2. \<forall>y < ncols c2.
          (p1 ! x ! y \<longrightarrow> \<not> a ! x ! y) \<and> (a ! x ! y \<longrightarrow> c2 ! x ! y)"
    using cells by simp
  with a g1 g2 p1' shape la show ?thesis
    unfolding a_def [symmetric]
    by (intro exI [of _ a] exI [of _ c1] exI [of _ c2] exI [of _ p1]) simp
qed

theorem annulus_footprint_witness:
  "(0::int) < 1 \<and> (1::int) < 2 \<and>
   get_focal_window (Seq [IntV 1, IntV 2]) None
     = Inr [[False, True, False], [True, False, True], [False, True, False]]
   \<and> (\<exists>a c1 c2 p1.
           get_focal_window (Seq [IntV 1, IntV 2]) None = Inr a
         \<and> get_focal_window (Scalar (IntV 1)) None = Inr c1
         \<and> get_focal_window (Scalar (IntV 2)) None = Inr c2
         \<and> np_pad c1 ((int (nrows c2) - int (nrows c1)) div 2)
                      ((int (nrows c2) - int (nrows c1)) div 2) = Inr p1
         \<and> map length p1 = map length c2
         \<and> map length a = map length c2
         \<and> (\<forall>x < nrows c2. \<forall>y < ncols c2.
               (p1 ! x ! y \<longrightarrow> \<not> a ! x ! y) \<and> (a ! x ! y \<longrightarrow> c2 ! x ! y)))"
proof -
  have e: "get_focal_window (Seq [IntV 1, IntV 2]) None
           = Inr [[False, True, False], [True, False, True], [False, True, False]]"
    by code_simp
  show ?thesis using annulus_footprint [of 1 2] e by simp
qed

lemma check_values_None_iff: "check_values vs = None \<longleftrightarrow> (\<forall>v \<in> set vs. \<not> bad_value v)"
  by (induction vs) (auto simp: bad_value_def)

lemma build_window_rectangle: "\<exists>win. build_window vs (Some h) = Inr win"
  by (simp add: build_window_def)

lemma get_focal_window_error_iff:
  assumes "footprint_spec w"
  shows "isl (get_focal_window w height) \<longleftrightarrow> malformed_spec w height"
proof (cases w)
  case (Scalar v)
  show ?thesis
  proof (cases "bad_value v")
    case True
    then show ?thesis
      using Scalar
      by (auto simp: get_focal_window_def check_sequence_def malformed_spec_def bad_value_def)
  next
    case False
    then obtain r where v: "v = IntV r" and r: "0 < r"
      by (cases v) (auto simp: bad_value_def)
    show ?thesis
    proof (cases height)
      case None
      then show ?thesis
        using Scalar v r False by (simp add: get_focal_window_circle malformed_spec_def)
    next
      case (Some h)
      then show ?thesis
        using Scalar v r False
        by (auto simp: get_focal_window_def check_sequence_def check_height_def
            malformed_spec_def bad_value_def build_window_def)
    qed
  qed
next
  case (Seq vs)
  then obtain a b where vs: "vs = [a, b]"
    using assms
    by (cases vs; cases "tl vs") (auto simp: footprint_spec_def)
  show ?thesis
  proof (cases "num_of a \<ge> num_of b \<or> bad_value a \<or> bad_value b \<or> height \<noteq> None")
    case True
    then show ?thesis
      using Seq vs
      by (auto simp: get_focal_window_def check_sequence_def check_height_def
          malformed_spec_def bad_value_def split: option.splits)
  next
    case False
    then obtain r1 r2 where ab: "a = IntV r1" "b = IntV r2" and r: "0 < r1" "r1 < r2"
      by (cases a; cases b) (auto simp: bad_value_def)
    from get_focal_window_annulus [OF r] obtain win where
      "get_focal_window (Seq [IntV r1, IntV r2]) None = Inr win" by blast
    then show ?thesis
      using Seq vs ab r False by (simp add: malformed_spec_def bad_value_def)
  qed
qed


text \<open>
  Claim C9.  For a spec that names one value or a pair of values, with or without a
  height, \<^verbatim>\<open>get_focal_window\<close> raises exactly when the spec is malformed: some radius,
  width or height is not an integer or not greater than 0, the pair has \<open>r1 \<ge> r2\<close>, or
  a pair comes with an explicit height.  Every other spec yields a window.  On a
  malformed spec \<^verbatim>\<open>focal\<close> raises with the store as it was: no copy is made and no band
  is processed.
\<close>

theorem footprint_validation:
  assumes "footprint_spec w"
  shows "(isl (get_focal_window w height) \<longleftrightarrow> malformed_spec w height)
       \<and> (\<not> malformed_spec w height \<longrightarrow> (\<exists>window. get_focal_window w height = Inr window))
       \<and> (malformed_spec w height \<longrightarrow> (\<exists>e. focal E unset s r focal_type w height = (s, Inl e)))"
proof (intro conjI impI)
  show iff: "isl (get_focal_window w height) \<longleftrightarrow> malformed_spec w height"
    by (rule get_focal_window_error_iff [OF assms])
  show "\<exists>window. get_focal_window w height = Inr window" if "\<not> malformed_spec w height"
    using that iff by (cases "get_focal_window w height") simp_all
  show "\<exists>e. focal E unset s r focal_type w height = (s, Inl e)" if "malformed_spec w height"
  proof -
    from that iff obtain e where "get_focal_window w height = Inl e"
      by (cases "get_focal_window w height") simp_all
    then show ?thesis by (simp add: focal_def)
  qed
qed

theorem footprint_validation_witness:
  "footprint_spec (Seq [IntV 3, IntV 2])
   \<and> isl (get_focal_window (Seq [IntV 3, IntV 2]) None)
   \<and> malformed_spec (Seq [IntV 3, IntV 2]) None
   \<and> footprint_spec (Scalar (IntV 2))
   \<and> \<not> isl (get_focal_window (Scalar (IntV 2)) (Some (IntV 3)))
   \<and> \<not> malformed_spec (Scalar (IntV 2)) (Some (IntV 3))"
  using footprint_validation [of "Seq [IntV 3, IntV 2]" None]
    footprint_validation [of "Scalar (IntV 2)" "Some (IntV 3)"]
  by (simp add: footprint_spec_def malformed_spec_def bad_value_def)

text \<open>A list or tuple of any other length is refused as well.\<close>

lemma get_focal_window_wrong_length:
  "length vs \<noteq> 2 \<Longrightarrow> get_focal_window (Seq vs) height = Inl ValueError"
  by (simp add: get_focal_window_def check_sequence_def)

text \<open>Width and height both given: a rectangle of \<open>True\<close>, \<open>width\<close> rows of \<open>height\<close> cells.\<close>

lemma get_focal_window_rectangle:
  "0 < w \<Longrightarrow> 0 < h \<Longrightarrow>
   get_focal_window (Scalar (IntV w)) (Some (IntV h)) = Inr (replicate (nat w) (replicate (nat h) True))"
  by (simp add: get_focal_window_def check_sequence_def check_height_def build_window_def)
section \<open>Properties of the reducers\<close>

lemma finite_values_all_nan: "\<forall>v \<in> set x. isnan v \<Longrightarrow> finite_values x = []"
  by (induction x rule: finite_values.induct) auto

lemma fold_unique_all_nan: "\<forall>v \<in> set x. isnan v \<Longrightarrow> fold unique_step x s = s"
  by (induction x arbitrary: s) (auto simp: unique_step_def split: fval.splits)

lemma fold_tally_all_nan: "\<forall>v \<in> set x. isnan v \<Longrightarrow> fold tally_step x st = st"
  by (induction x arbitrary: st) (auto simp: tally_step_def split: fval.splits prod.splits)

lemma fold_mode_all_nan:
  assumes "\<forall>v \<in> set x. isnan v" "n \<le> length x"
  shows "fold mode_step [0..<n] (c, x, j) = (c, x, j)"
  using assms(2)
proof (induction n)
  case 0
  then show ?case by simp
next
  case (Suc n)
  then have "isnan (x ! n)" using assms(1) by (simp add: Suc_le_eq)
  then have "mode_step n (c, x, j) = (c, x, j)"
    by (cases "x ! n") (simp_all add: mode_step_def)
  with Suc show ?case by simp
qed

text \<open>
  Claim C1, as amended.  On a sample buffer whose entries are all NaN (the null-filtered
  sample is empty) the reducers min, max, mean, median, mode, std, var, unique, entropy
  and asm return NaN; the reducer sum returns \<open>0\<close>.
\<close>

theorem empty_sample_policy:
  assumes "x \<noteq> []" "\<forall>v \<in> set x. isnan v"
  shows "agg_nan_min x = NaN \<and> agg_nan_max x = NaN \<and> agg_nan_mean x = NaN
       \<and> agg_nan_median x = NaN \<and> agg_nan_mode x = NaN \<and> agg_nan_std x = NaN
       \<and> agg_nan_var x = NaN \<and> agg_nan_unique x = NaN \<and> agg_nan_entropy x = NaN
       \<and> agg_nan_asm x = NaN \<and> agg_nan_sum x = Num 0"
proof -
  note fv = finite_values_all_nan [OF assms(2)]
  have "agg_nan_min x = NaN" by (simp add: agg_nan_min_def np_nanmin_def fv)
  moreover have "agg_nan_max x = NaN" by (simp add: agg_nan_max_def np_nanmax_def fv)
  moreover have "agg_nan_mean x = NaN" by (simp add: agg_nan_mean_def np_nanmean_def fv)
  moreover have "agg_nan_median x = NaN" by (simp add: agg_nan_median_def np_nanmedian_def fv)
  moreover have "agg_nan_mode x = NaN"
    by (simp add: agg_nan_mode_def fold_mode_all_nan [OF assms(2)])
  moreover have "agg_nan_var x = NaN" by (simp add: agg_nan_var_def np_nanvar_def fv)
  moreover have "agg_nan_std x = NaN"
    by (simp add: agg_nan_std_def np_nanstd_def np_nanvar_def fv)
  moreover have "agg_nan_unique x = NaN"
    by (simp add: agg_nan_unique_def fold_unique_all_nan [OF assms(2)])
  moreover have "agg_nan_entropy x = NaN"
    by (simp add: agg_nan_entropy_def fold_tally_all_nan [OF assms(2)])
  moreover have "agg_nan_asm x = NaN"
    by (simp add: agg_nan_asm_def fold_tally_all_nan [OF assms(2)])
  moreover have "agg_nan_sum x = Num 0" by (simp add: agg_nan_sum_def np_nansum_def fv)
  ultimately show ?thesis by simp
qed

theorem empty_sample_policy_witness:
  "[NaN, NaN] \<noteq> [] \<and> list_all isnan [NaN, NaN]
   \<and> agg_nan_min [NaN, NaN] = NaN \<and> agg_nan_mode [NaN, NaN] = NaN
   \<and> agg_nan_unique [NaN, NaN] = NaN \<and> agg_nan_sum [NaN, NaN] = Num 0"
  using empty_sample_policy [of "[NaN, NaN]"] by simp

text \<open>The claim as stated fails for sum: the sum of an all-NaN sample is not NaN.\<close>

theorem empty_sample_sum_counterexample: "agg_nan_sum [NaN, NaN, NaN] \<noteq> NaN"
  by (simp add: agg_nan_sum_def np_nansum_def)

lemma map_of_count_up:
  "map_of (count_up v c) k =
     (if k = v then Some (case map_of c v of None \<Rightarrow> 1 | Some n \<Rightarrow> n + 1) else map_of c k)"
  by (induction c) auto

lemma finite_values_append: "finite_values (x @ y) = finite_values x @ finite_values y"
  by (induction x rule: finite_values.induct) auto

lemma finite_values_map_Num: "finite_values (map Num vs) = vs"
  by (induction vs) auto

lemma length_finite_values_le: "length (finite_values x) \<le> length x"
  by (induction x rule: finite_values.induct) auto

text \<open>The state of the loop of the mode reducer after the first \<open>i\<close> rounds.\<close>

lemma mode_scan_prefix:
  assumes "i \<le> length x0"
  shows "\<exists>c x. fold mode_step [0..<i] ([], x0, 0) = (c, x, length (finite_values (take i x0)))
           \<and> length x = length x0
           \<and> take (length (finite_values (take i x0))) x = map Num (finite_values (take i x0))
           \<and> drop i x = drop i x0
           \<and> (\<forall>k. map_of c k = (if k \<in> set (finite_values (take i x0))
                                 then Some (count_list (finite_values (take i x0)) k) else None))"
  using assms
proof (induction i)
  case 0
  then show ?case by simp
next
  case (Suc i)
  then have i: "i < length x0" by simp
  define fv where "fv = finite_values (take i x0)"
  from Suc obtain c x where st: "fold mode_step [0..<i] ([], x0, 0) = (c, x, length fv)"
    and len: "length x = length x0"
    and front: "take (length fv) x = map Num fv"
    and rest: "drop i x = drop i x0"
    and cnt: "\<And>k. map_of c k = (if k \<in> set fv then Some (count_list fv k) else None)"
    unfolding fv_def by auto
  have xi: "x ! i = x0 ! i"
    using rest i len by (metis Cons_nth_drop_Suc nth_via_drop)
  have tk: "take (Suc i) x0 = take i x0 @ [x0 ! i]"
    using i by (simp add: take_Suc_conv_app_nth)
  have jle: "length fv \<le> i"
    using length_finite_values_le [of "take i x0"] i by (simp add: fv_def)
  show ?case
  proof (cases "x0 ! i")
    case NaN
    then have "mode_step i (c, x, length fv) = (c, x, length fv)"
      using xi by (simp add: mode_step_def)
    moreover have "finite_values (take (Suc i) x0) = fv"
      using NaN by (simp add: tk finite_values_append fv_def)
    moreover have "drop (Suc i) x = drop (Suc i) x0"
      using rest by (metis drop_Suc tl_drop)
    ultimately show ?thesis
      using st len front cnt by (simp add: fv_def [symmetric])
  next
    case (Num v)
    define x' where "x' = x[length fv := Num v]"
    have step: "mode_step i (c, x, length fv) = (count_up v c, x', length fv + 1)"
      using xi Num by (simp add: mode_step_def x'_def)
    have fv': "finite_values (take (Suc i) x0) = fv @ [v]"
      using Num by (simp add: tk finite_values_append fv_def)
    have "length fv < length x" using jle i len by simp
    then have front': "take (length fv + 1) x' = map Num (fv @ [v])"
      using front by (simp add: x'_def take_Suc_conv_app_nth)
    have rest': "drop (Suc i) x' = drop (Suc i) x0"
    proof -
      have "drop (Suc i) x' = drop (Suc i) x" using jle by (simp add: x'_def)
      also have "\<dots> = drop (Suc i) x0" using rest by (metis drop_Suc tl_drop)
      finally show ?thesis .
    qed
    have cnt': "map_of (count_up v c) k
                = (if k \<in> set (fv @ [v]) then Some (count_list (fv @ [v]) k) else None)" for k
      by (auto simp: map_of_count_up cnt count_list_0_iff)
    have "fold mode_step [0..<Suc i] ([], x0, 0) = (count_up v c, x', length (fv @ [v]))"
      using st step by simp
    moreover have "length x' = length x0" using len by (simp add: x'_def)
    ultimately show ?thesis
      using front' rest' cnt' unfolding fv' by (intro exI [of _ "count_up v c"] exI [of _ x']) simp
  qed
qed

lemma agg_nan_mode_eq:
  "agg_nan_mode x =
     (let fv = finite_values x; vals = sort fv
      in if vals = [] then NaN
         else Num (vals ! np_argmax (map (\<lambda>v. (word_of_nat (count_list fv v) :: 16 word)) vals)))"
proof -
  define fv where "fv = finite_values x"
  from mode_scan_prefix [of "length x" x] obtain c x' where
    st: "fold mode_step [0..<length x] ([], x, 0) = (c, x', length fv)"
    and front: "take (length fv) x' = map Num fv"
    and cnt: "\<And>k. map_of c k = (if k \<in> set fv then Some (count_list fv k) else None)"
    unfolding fv_def by auto
  have eq: "map (\<lambda>v. (word_of_nat (case map_of c v of Some n \<Rightarrow> n | None \<Rightarrow> 0) :: 16 word)) (sort fv)
        = map (\<lambda>v. word_of_nat (count_list fv v)) (sort fv)"
    by (rule map_cong) (auto simp: cnt)
  show ?thesis
    unfolding agg_nan_mode_def st fv_def [symmetric]
    by (simp add: front finite_values_map_Num Let_def eq)
qed

lemma np_argmax_less:
  assumes "xs \<noteq> []"
  shows "np_argmax xs < length xs"
proof -
  have "Max (set xs) \<in> set xs" using assms by (simp add: Max_in)
  then have "takeWhile (\<lambda>x. x \<noteq> Max (set xs)) xs \<noteq> xs"
    by (metis (mono_tags, lifting) set_takeWhileD)
  then have "length (takeWhile (\<lambda>x. x \<noteq> Max (set xs)) xs) \<noteq> length xs"
    by (metis takeWhile_eq_take take_all order_refl)
  with length_takeWhile_le [of "\<lambda>x. x \<noteq> Max (set xs)" xs] show ?thesis
    by (simp add: np_argmax_def)
qed

lemma np_argmax_Max: "xs \<noteq> [] \<Longrightarrow> xs ! np_argmax xs = Max (set xs)"
  using np_argmax_less [of xs] nth_length_takeWhile [of "\<lambda>x. x \<noteq> Max (set xs)" xs]
  by (simp add: np_argmax_def)

lemma np_argmax_first: "i < np_argmax xs \<Longrightarrow> xs ! i \<noteq> Max (set xs)"
  unfolding np_argmax_def
  by (metis (mono_tags, lifting) nth_mem set_takeWhileD takeWhile_nth)

lemma word16_of_nat_le:
  assumes "a < 65536" "b < 65536"
  shows "(word_of_nat a :: 16 word) \<le> word_of_nat b \<longleftrightarrow> a \<le> b"
  using assms by (simp add: word_le_nat_alt unat_of_nat)

lemma word16_of_nat_eq:
  assumes "a < 65536" "b < 65536"
  shows "(word_of_nat a :: 16 word) = word_of_nat b \<longleftrightarrow> a = b"
  using assms word16_of_nat_le [of a b] word16_of_nat_le [of b a] by auto

lemma count_list_le_length: "count_list xs v \<le> length xs"
  by (induction xs) auto

text \<open>
  The mode of a sample of fewer than \<open>2^16\<close> entries: a value of highest count, and the
  smallest of the values of that count.
\<close>

lemma mode_of_small_sample:
  assumes ne: "finite_values x \<noteq> []" and small: "length x < 65536"
  shows "\<exists>m. agg_nan_mode x = Num m \<and> m \<in> set (finite_values x)
           \<and> (\<forall>v \<in> set (finite_values x).
                 count_list (finite_values x) v \<le> count_list (finite_values x) m
               \<and> (count_list (finite_values x) v = count_list (finite_values x) m \<longrightarrow> m \<le> v))"
proof -
  define fv where "fv = finite_values x"
  define vals where "vals = sort fv"
  define cnts where "cnts = map (\<lambda>v. (word_of_nat (count_list fv v) :: 16 word)) vals"
  define k where "k = np_argmax cnts"
  define m where "m = vals ! k"
  have "length vals = length fv" by (simp add: vals_def)
  then have vne: "vals \<noteq> []" using ne unfolding fv_def [symmetric] by (metis length_0_conv)
  then have cne: "cnts \<noteq> []" by (simp add: cnts_def)
  have res: "agg_nan_mode x = Num m"
    using vne by (simp add: agg_nan_mode_eq Let_def fv_def [symmetric] vals_def [symmetric]
        cnts_def [symmetric] k_def [symmetric] m_def)
  have k: "k < length vals" using np_argmax_less [OF cne] by (simp add: k_def cnts_def)
  have bound: "count_list fv v < 65536" for v
    using count_list_le_length [of fv v] length_finite_values_le [of x] small
    by (simp add: fv_def)
  have m_in: "m \<in> set fv" using k by (metis m_def nth_mem set_sort vals_def)
  have ck: "cnts ! k = word_of_nat (count_list fv m)"
    using k by (simp add: cnts_def m_def)
  have mx: "cnts ! k = Max (set cnts)" using np_argmax_Max [OF cne] by (simp add: k_def)
  have "count_list fv v \<le> count_list fv m \<and> (count_list fv v = count_list fv m \<longrightarrow> m \<le> v)"
    if "v \<in> set fv" for v
  proof
    from that obtain i where i: "i < length vals" "vals ! i = v"
      by (metis in_set_conv_nth set_sort vals_def)
    then have ci: "cnts ! i = word_of_nat (count_list fv v)" by (simp add: cnts_def)
    have "i < length cnts" using i by (simp add: cnts_def)
    then have "cnts ! i \<in> set cnts" by (rule nth_mem)
    then have "cnts ! i \<le> cnts ! k" unfolding mx by simp
    then show "count_list fv v \<le> count_list fv m"
      unfolding ci ck using word16_of_nat_le [OF bound bound] by simp
    show "count_list fv v = count_list fv m \<longrightarrow> m \<le> v"
    proof
      assume "count_list fv v = count_list fv m"
      then have "cnts ! i = Max (set cnts)" using ci ck mx by simp
      then have "\<not> i < k" using np_argmax_first [of i cnts] by (auto simp: k_def)
      then have "k \<le> i" by simp
      moreover have "sorted vals" by (simp add: vals_def)
      ultimately have "vals ! k \<le> vals ! i" using i(1) by (simp add: sorted_nth_mono)
      then show "m \<le> v" by (simp add: m_def i(2))
    qed
  qed
  with res m_in show ?thesis unfolding fv_def by blast
qed

lemma finite_values_replicate_Num: "finite_values (replicate n (Num a)) = replicate n a"
  by (induction n) auto

lemma count_list_replicate: "count_list (replicate n a) k = (if k = a then n else 0)"
  by (induction n) auto

lemma mode_of_wrapped_count:
  assumes "a < b" "0 < n" "(word_of_nat n :: 16 word) = 0"
  shows "agg_nan_mode (replicate n (Num a) @ [Num b]) = Num b"
proof -
  define fv where "fv = replicate n a @ [b]"
  have fv: "finite_values (replicate n (Num a) @ [Num b]) = fv"
    by (simp add: finite_values_append finite_values_replicate_Num fv_def)
  have "sorted fv" using assms(1) by (simp add: fv_def sorted_append)
  then have srt: "sort fv = fv" by (rule sorted_sort_id)
  have ca: "count_list fv a = n" using assms(1) by (simp add: fv_def count_list_replicate)
  have cb: "count_list fv b = 1" using assms(1) by (simp add: fv_def count_list_replicate)
  define cnts where "cnts = map (\<lambda>v. (word_of_nat (count_list fv v) :: 16 word)) fv"
  have "cnts = replicate n (word_of_nat (count_list fv a)) @ [word_of_nat (count_list fv b)]"
    unfolding cnts_def by (simp add: fv_def)
  then have cnts: "cnts = replicate n 0 @ [1]"
    unfolding ca cb using assms(3) by simp
  have "set cnts = {0, 1}" using assms(2) by (auto simp: cnts)
  then have mx: "Max (set cnts) = 1" by simp
  have "takeWhile (\<lambda>x. x \<noteq> 1) (replicate n (0 :: 16 word) @ [1]) = replicate n 0"
    by (induction n) auto
  moreover have "np_argmax cnts = length (takeWhile (\<lambda>x. x \<noteq> 1) cnts)"
    unfolding np_argmax_def mx ..
  ultimately have "np_argmax cnts = n" unfolding cnts by simp
  moreover have "fv ! n = b" by (simp add: fv_def nth_append)
  ultimately show ?thesis
    by (simp add: agg_nan_mode_eq fv srt Let_def cnts_def [symmetric]) (simp add: fv_def)
qed

text \<open>
  Claim C4 at a sample of 65537 numbers.  The value \<open>1\<close> occurs 65536 times and the value
  \<open>2\<close> once; the count of \<open>1\<close> is stored as \<open>0\<close> in the 16-bit array, and the mode
  reducer returns \<open>2\<close>, which is not the value of highest count.
\<close>

theorem mode_count_overflow:
  "count_list (finite_values (replicate 65536 (Num 1) @ [Num 2])) 1 = 65536
   \<and> count_list (finite_values (replicate 65536 (Num 1) @ [Num 2])) 2 = 1
   \<and> agg_nan_mode (replicate 65536 (Num 1) @ [Num 2]) = Num 2"
proof -
  have "agg_nan_mode (replicate 65536 (Num 1) @ [Num 2]) = Num 2"
    by (rule mode_of_wrapped_count) simp_all
  then show ?thesis
    by (simp add: finite_values_append finite_values_replicate_Num count_list_replicate)
qed

section \<open>Properties of the tile kernels\<close>

lemma py_range_int: "py_range (int a) (int b) = map int [a..<b]"
proof -
  have "map (\<lambda>i. int a + int i) [0..<b - a] = map int (map (\<lambda>i. i + a) [0..<b - a])"
    by (simp add: add.commute)
  also have "map (\<lambda>i. i + a) [0..<b - a] = [a..<b]"
    by (cases "a \<le> b") (simp_all add: map_add_upt)
  finally show ?thesis
    by (simp add: py_range_def nat_diff_distrib' flip: of_nat_diff)
qed

lemma py_range_offset: "py_range lo (lo + int n) = map (\<lambda>i. lo + int i) [0..<n]"
  by (simp add: py_range_def)

lemma length_set_cell [simp]: "length (set_cell out r c v) = length out"
  by (simp add: set_cell_def)

lemma length_set_cell_row [simp]: "length (set_cell out r c v ! k) = length (out ! k)"
  by (cases "k = nat r"; cases "nat r < length out")
    (simp_all add: set_cell_def list_update_beyond not_less)

lemma set_cell_nth:
  "set_cell out (int r) (int c) v ! r' ! c' =
     (if r' = r \<and> r < length out \<and> c' = c \<and> c < length (out ! r) then Some v
      else out ! r' ! c')"
  by (cases "r' = r"; cases "r < length out"; cases "c' = c"; cases "c < length (out ! r)")
    (simp_all add: set_cell_def list_update_beyond not_less)

lemma length_fold_cols [simp]:
  "length (fold (\<lambda>c out. set_cell out r c (f c)) cs out) = length out"
  by (induction cs arbitrary: out) simp_all

lemma length_fold_cols_row [simp]:
  "length (fold (\<lambda>c out. set_cell out r c (f c)) cs out ! k) = length (out ! k)"
  by (induction cs arbitrary: out) simp_all

lemma fold_cols_nth:
  "fold (\<lambda>c out. set_cell out (int r) c (f c)) (map int ns) out ! r' ! c' =
     (if r' = r \<and> r < length out \<and> c' < length (out ! r) \<and> c' \<in> set ns
      then Some (f (int c')) else out ! r' ! c')"
proof (induction ns arbitrary: out)
  case Nil
  then show ?case by simp
next
  case (Cons n ns)
  show ?case
    by (simp add: Cons.IH set_cell_nth) auto
qed

lemma length_fold_rows [simp]:
  "length (fold (\<lambda>r out. fold (\<lambda>c out. set_cell out r c (f r c)) cs out) rs out) = length out"
  by (induction rs arbitrary: out) simp_all

lemma length_fold_rows_row [simp]:
  "length (fold (\<lambda>r out. fold (\<lambda>c out. set_cell out r c (f r c)) cs out) rs out ! k)
   = length (out ! k)"
  by (induction rs arbitrary: out) simp_all

lemma fold_rows_nth:
  "fold (\<lambda>r out. fold (\<lambda>c out. set_cell out r c (f r c)) (map int ns) out) (map int rs) out
     ! r' ! c' =
     (if r' \<in> set rs \<and> r' < length out \<and> c' < length (out ! r') \<and> c' \<in> set ns
      then Some (f (int r') (int c')) else out ! r' ! c')"
proof (induction rs arbitrary: out)
  case Nil
  then show ?case by simp
next
  case (Cons r rs)
  show ?case
    by (simp add: Cons.IH fold_cols_nth) auto
qed

lemma py_range_sub: "py_range (int a) (int n - int a) = map int [a..<n - a]"
proof (cases "a \<le> n")
  case True
  then have "int n - int a = int (n - a)" by simp
  then show ?thesis by (simp only: py_range_int)
next
  case False
  then show ?thesis by (simp add: py_range_def)
qed

lemma r_ovlp_eq:
  "max ((int (nrows kern) - 1) div 2) (int (nrows kern) div 2) = int (rpad kern)"
  by (simp add: rpad_def get_offsets_def shape_def Let_def)

lemma c_ovlp_eq:
  "max ((int (ncols kern) - 1) div 2) (int (ncols kern) div 2) = int (cpad kern)"
  by (simp add: cpad_def get_offsets_def shape_def Let_def)

lemma empty_like_nth:
  "r < nrows chunk \<Longrightarrow> c < ncols chunk \<Longrightarrow> empty_like chunk ! r ! c = None"
  by (simp add: empty_like_def)

lemma length_empty_like [simp]: "length (empty_like chunk) = nrows chunk"
  by (simp add: empty_like_def)

lemma length_empty_like_row [simp]:
  "r < nrows chunk \<Longrightarrow> length (empty_like chunk ! r) = ncols chunk"
  by (simp add: empty_like_def)

lemma focal_chunk_eq:
  "focal_chunk filled to_dtype chunk kern func =
     fold (\<lambda>r out.
             fold (\<lambda>c out.
                     set_cell out r c
                       (to_dtype (func (gather chunk (concat kern) (nrows kern * ncols kern)
                                          (filled r c) r c
                                          ((int (nrows kern) - 1) div 2) (int (nrows kern) div 2)
                                          ((int (ncols kern) - 1) div 2) (int (ncols kern) div 2)))))
                  (map int [cpad kern..<ncols chunk - cpad kern]) out)
          (map int [rpad kern..<nrows chunk - rpad kern]) (empty_like chunk)"
  unfolding focal_chunk_def Let_def r_ovlp_eq c_ovlp_eq py_range_sub ..

lemma nrows_focal_chunk: "nrows (focal_chunk filled to_dtype chunk kern func) = nrows chunk"
  by (simp add: focal_chunk_eq nrows_def)

lemma length_focal_chunk_row:
  "r < nrows chunk \<Longrightarrow> length (focal_chunk filled to_dtype chunk kern func ! r) = ncols chunk"
  by (simp add: focal_chunk_eq)

lemma focal_chunk_nth:
  assumes "r < nrows chunk" "c < ncols chunk"
  shows "focal_chunk filled to_dtype chunk kern func ! r ! c =
     (if rpad kern \<le> r \<and> r < nrows chunk - rpad kern
         \<and> cpad kern \<le> c \<and> c < ncols chunk - cpad kern
      then Some (to_dtype (func (gather chunk (concat kern) (nrows kern * ncols kern)
                                   (filled (int r) (int c)) (int r) (int c)
                                   ((int (nrows kern) - 1) div 2) (int (nrows kern) div 2)
                                   ((int (ncols kern) - 1) div 2) (int (ncols kern) div 2))))
      else None)"
  using assms unfolding focal_chunk_eq fold_rows_nth
  by (simp add: empty_like_nth)

lemma length_trim: "length (trim rd cd g) = length g - 2 * rd"
  by (simp add: trim_def)

lemma trim_row:
  "i < length g - 2 * rd \<Longrightarrow>
   trim rd cd g ! i = take (length (g ! (i + rd)) - 2 * cd) (drop cd (g ! (i + rd)))"
  by (simp add: trim_def add.commute)

lemma trim_nth:
  "i < length g - 2 * rd \<Longrightarrow> j < length (g ! (i + rd)) - 2 * cd \<Longrightarrow>
   trim rd cd g ! i ! j = g ! (i + rd) ! (j + cd)"
  by (simp add: trim_row add.commute)

lemma offsets_sum: "(k - 1) div 2 + k div 2 + 1 = (k :: int)"
  by presburger

lemma correlate_step_Num:
  assumes "kern ! ki = Num w"
  shows "correlate_step chunk kern kr kc (ki, Num s)
         = (ki + 1, Num (s + contribution (kern ! ki) (cell chunk kr kc)))"
  using assms
  by (cases "cell chunk kr kc") (simp_all add: correlate_step_def contribution_def Let_def)

lemma correlate_row:
  assumes "\<forall>j < n. \<not> isnan (kern ! (ki + j))"
  shows "fold (\<lambda>kc st. correlate_step chunk kern kr kc st) (map (\<lambda>j. clo + int j) [0..<n]) (ki, Num s)
         = (ki + n, Num (s + (\<Sum>j < n. contribution (kern ! (ki + j)) (cell chunk kr (clo + int j)))))"
  using assms
proof (induction n)
  case 0
  then show ?case by simp
next
  case (Suc n)
  then obtain w where "kern ! (ki + n) = Num w"
    by (cases "kern ! (ki + n)") auto
  from correlate_step_Num [OF this] Suc show ?case
    by (simp add: add.assoc)
qed

lemma correlate_rows:
  assumes "\<forall>p < m * n. \<not> isnan (kern ! p)"
  shows "fold (\<lambda>kr st. fold (\<lambda>kc st. correlate_step chunk kern kr kc st)
                            (map (\<lambda>j. clo + int j) [0..<n]) st)
              (map (\<lambda>i. rlo + int i) [0..<m]) (0, Num 0)
         = (m * n, Num (\<Sum>i < m. \<Sum>j < n.
                          contribution (kern ! (i * n + j)) (cell chunk (rlo + int i) (clo + int j))))"
  using assms
proof (induction m)
  case 0
  then show ?case by simp
next
  case (Suc m)
  have "\<forall>j < n. \<not> isnan (kern ! (m * n + j))"
  proof (intro allI impI)
    fix j assume "j < n"
    then have "m * n + j < Suc m * n" by simp
    with Suc.prems show "\<not> isnan (kern ! (m * n + j))" by blast
  qed
  from correlate_row [OF this] Suc show ?case by simp
qed

lemma correlate_cell_eq:
  assumes "\<forall>p < krows * kcols. \<not> isnan (kern ! p)"
  shows "correlate_cell chunk kern r c ((int krows - 1) div 2) (int krows div 2)
            ((int kcols - 1) div 2) (int kcols div 2)
         = Num (\<Sum>i < krows. \<Sum>j < kcols.
                  contribution (kern ! (i * kcols + j))
                    (cell chunk (r - (int krows - 1) div 2 + int i) (c - (int kcols - 1) div 2 + int j)))"
proof -
  have r: "r + int krows div 2 + 1 = (r - (int krows - 1) div 2) + int krows"
    using offsets_sum [of "int krows"] by linarith
  have c: "c + int kcols div 2 + 1 = (c - (int kcols - 1) div 2) + int kcols"
    using offsets_sum [of "int kcols"] by linarith
  show ?thesis
    unfolding correlate_cell_def r c py_range_offset
    by (simp add: correlate_rows [OF assms])
qed

lemma rect_rows: "rect g \<Longrightarrow> row \<in> set g \<Longrightarrow> length row = ncols g"
  by (simp add: rect_def list_all_iff)

lemma concat_nth_uniform:
  assumes "\<forall>row \<in> set g. length row = n" "i < length g" "j < n"
  shows "concat g ! (i * n + j) = g ! i ! j"
  using assms
proof (induction g arbitrary: i)
  case Nil
  then show ?case by simp
next
  case (Cons row g)
  show ?case
  proof (cases i)
    case 0
    with Cons.prems show ?thesis by (simp add: nth_append)
  next
    case (Suc i')
    with Cons.prems have "concat g ! (i' * n + j) = g ! i' ! j"
      by (intro Cons.IH) simp_all
    with Cons.prems Suc show ?thesis by (simp add: nth_append)
  qed
qed

lemma concat_nth_rect:
  "rect g \<Longrightarrow> i < nrows g \<Longrightarrow> j < ncols g \<Longrightarrow> concat g ! (i * ncols g + j) = g ! i ! j"
  using concat_nth_uniform [of g "ncols g" i j] by (simp add: rect_rows nrows_def)

lemma cell_nat [simp]: "cell g (int r) (int c) = g ! r ! c"
  by (simp add: cell_def item_def)

lemma correlate2d_chunk_eq:
  "correlate2d_chunk chunk kern =
     fold (\<lambda>r out.
             fold (\<lambda>c out.
                     set_cell out r c
                       (correlate_cell chunk (concat kern) r c
                          ((int (nrows kern) - 1) div 2) (int (nrows kern) div 2)
                          ((int (ncols kern) - 1) div 2) (int (ncols kern) div 2)))
                  (map int [cpad kern..<ncols chunk - cpad kern]) out)
          (map int [rpad kern..<nrows chunk - rpad kern]) (empty_like chunk)"
  unfolding correlate2d_chunk_def Let_def r_ovlp_eq c_ovlp_eq py_range_sub ..

lemma correlate2d_chunk_nth:
  assumes "r < nrows chunk" "c < ncols chunk"
  shows "correlate2d_chunk chunk kern ! r ! c =
     (if rpad kern \<le> r \<and> r < nrows chunk - rpad kern
         \<and> cpad kern \<le> c \<and> c < ncols chunk - cpad kern
      then Some (correlate_cell chunk (concat kern) (int r) (int c)
                   ((int (nrows kern) - 1) div 2) (int (nrows kern) div 2)
                   ((int (ncols kern) - 1) div 2) (int (ncols kern) div 2))
      else None)"
  using assms unfolding correlate2d_chunk_eq fold_rows_nth
  by (simp add: empty_like_nth)

lemma top_offset_nat: "0 < k \<Longrightarrow> (int k - 1) div 2 = int ((k - 1) div 2)"
  by (simp add: of_nat_diff zdiv_int)

lemma top_offset_le_rpad: "(nrows kern - 1) div 2 \<le> rpad kern"
  by (simp add: rpad_def get_offsets_def shape_def Let_def)

lemma top_offset_le_cpad: "(ncols kern - 1) div 2 \<le> cpad kern"
  by (simp add: cpad_def get_offsets_def shape_def Let_def)

lemma bottom_reach_rpad: "i < nrows kern \<Longrightarrow> i \<le> (nrows kern - 1) div 2 + rpad kern"
  by (simp add: rpad_def get_offsets_def shape_def Let_def)

lemma bottom_reach_cpad: "j < ncols kern \<Longrightarrow> j \<le> (ncols kern - 1) div 2 + cpad kern"
  by (simp add: cpad_def get_offsets_def shape_def Let_def)

text \<open>
  Claim C8.  In \<^verbatim>\<open>_correlate2d_chunk\<close>, on a padded tile and a NaN-free weight kernel, the
  output at a cell inside the halo border is the sum over the kernel positions of weight
  times source value, taken over the source cells that are not NaN: a NaN source cell
  adds zero, and the result is a number, never NaN.  All cells read lie inside the tile.
\<close>

theorem correlate2d_chunk_skips_nan:
  assumes "rect chunk" "rect kern"
    and "\<forall>row \<in> set kern. \<forall>w \<in> set row. \<not> isnan w"
    and "rpad kern \<le> r" "r < nrows chunk - rpad kern"
    and "cpad kern \<le> c" "c < ncols chunk - cpad kern"
  shows "correlate2d_chunk chunk kern ! r ! c
         = Some (Num (\<Sum>i < nrows kern. \<Sum>j < ncols kern.
                        contribution (kern ! i ! j)
                          (chunk ! (r - (nrows kern - 1) div 2 + i)
                                 ! (c - (ncols kern - 1) div 2 + j))))
       \<and> (\<forall>i < nrows kern. r - (nrows kern - 1) div 2 + i < nrows chunk)
       \<and> (\<forall>j < ncols kern. c - (ncols kern - 1) div 2 + j < ncols chunk)"
proof (intro conjI allI impI)
  define krows where "krows = nrows kern"
  define kcols where "kcols = ncols kern"
  have weights: "\<forall>p < krows * kcols. \<not> isnan (concat kern ! p)"
  proof (intro allI impI)
    fix p assume p: "p < krows * kcols"
    then have "0 < kcols" by (cases kcols) simp_all
    with p have i: "p div kcols < krows" and j: "p mod kcols < kcols"
      by (simp_all add: less_mult_imp_div_less)
    have "concat kern ! (p div kcols * kcols + p mod kcols) = kern ! (p div kcols) ! (p mod kcols)"
      using concat_nth_rect [OF assms(2)] i j unfolding krows_def kcols_def by blast
    moreover have "kern ! (p div kcols) \<in> set kern"
      using i by (simp add: krows_def nrows_def)
    moreover have "length (kern ! (p div kcols)) = kcols"
      using rect_rows [OF assms(2)] calculation(2) by (simp add: kcols_def)
    ultimately have "concat kern ! p \<in> set (kern ! (p div kcols))"
      using j by simp
    with assms(3) \<open>kern ! (p div kcols) \<in> set kern\<close> show "\<not> isnan (concat kern ! p)"
      by blast
  qed
  have inside: "r < nrows chunk" "c < ncols chunk" using assms(5,7) by simp_all
  have "correlate2d_chunk chunk kern ! r ! c
        = Some (correlate_cell chunk (concat kern) (int r) (int c)
                  ((int krows - 1) div 2) (int krows div 2)
                  ((int kcols - 1) div 2) (int kcols div 2))"
    using assms(4-7) by (simp add: correlate2d_chunk_nth [OF inside] krows_def kcols_def)
  also have "correlate_cell chunk (concat kern) (int r) (int c)
                  ((int krows - 1) div 2) (int krows div 2)
                  ((int kcols - 1) div 2) (int kcols div 2)
        = Num (\<Sum>i < krows. \<Sum>j < kcols.
                  contribution (concat kern ! (i * kcols + j))
                    (cell chunk (int r - (int krows - 1) div 2 + int i)
                                (int c - (int kcols - 1) div 2 + int j)))"
    by (rule correlate_cell_eq [OF weights])
  also have "(\<Sum>i < krows. \<Sum>j < kcols.
                  contribution (concat kern ! (i * kcols + j))
                    (cell chunk (int r - (int krows - 1) div 2 + int i)
                                (int c - (int kcols - 1) div 2 + int j)))
        = (\<Sum>i < krows. \<Sum>j < kcols.
                  contribution (kern ! i ! j)
                    (chunk ! (r - (krows - 1) div 2 + i) ! (c - (kcols - 1) div 2 + j)))"
  proof (intro sum.cong refl)
    fix i j assume "i \<in> {..<krows}" "j \<in> {..<kcols}"
    then have i: "i < krows" and j: "j < kcols" by simp_all
    have k: "concat kern ! (i * kcols + j) = kern ! i ! j"
      using concat_nth_rect [OF assms(2)] i j unfolding krows_def kcols_def by blast
    have e1: "int r - (int krows - 1) div 2 + int i = int (r - (krows - 1) div 2 + i)"
      using i top_offset_nat [of krows] top_offset_le_rpad [of kern] assms(4)
      by (simp add: krows_def)
    have e2: "int c - (int kcols - 1) div 2 + int j = int (c - (kcols - 1) div 2 + j)"
      using j top_offset_nat [of kcols] top_offset_le_cpad [of kern] assms(6)
      by (simp add: kcols_def)
    show "contribution (concat kern ! (i * kcols + j))
                    (cell chunk (int r - (int krows - 1) div 2 + int i)
                                (int c - (int kcols - 1) div 2 + int j))
          = contribution (kern ! i ! j)
                    (chunk ! (r - (krows - 1) div 2 + i) ! (c - (kcols - 1) div 2 + j))"
      by (simp only: k e1 e2 cell_nat)
  qed
  finally show "correlate2d_chunk chunk kern ! r ! c
         = Some (Num (\<Sum>i < nrows kern. \<Sum>j < ncols kern.
                        contribution (kern ! i ! j)
                          (chunk ! (r - (nrows kern - 1) div 2 + i)
                                 ! (c - (ncols kern - 1) div 2 + j))))"
    by (simp add: krows_def kcols_def)
next
  fix i assume "i < nrows kern"
  then show "r - (nrows kern - 1) div 2 + i < nrows chunk"
    using bottom_reach_rpad [of i kern] top_offset_le_rpad [of kern] assms(4,5) by linarith
next
  fix j assume "j < ncols kern"
  then show "c - (ncols kern - 1) div 2 + j < ncols chunk"
    using bottom_reach_cpad [of j kern] top_offset_le_cpad [of kern] assms(6,7) by linarith
qed

theorem correlate2d_chunk_skips_nan_witness:
  "rect [[Num 1, Num 2, Num 3], [Num 4, NaN, Num 6], [Num 7, Num 8, Num 9]]
   \<and> rect [[Num 1, Num 1, Num 1], [Num 1, Num 2, Num 1], [Num 1, Num 1, Num 1]]
   \<and> correlate2d_chunk [[Num 1, Num 2, Num 3], [Num 4, NaN, Num 6], [Num 7, Num 8, Num 9]]
         [[Num 1, Num 1, Num 1], [Num 1, Num 2, Num 1], [Num 1, Num 1, Num 1]] ! 1 ! 1
       = Some (Num 40)
   \<and> (\<Sum>i < 3. \<Sum>j < 3.
          contribution ([[Num 1, Num 1, Num 1], [Num 1, Num 2, Num 1], [Num 1, Num 1, Num 1]] ! i ! j)
            ([[Num 1, Num 2, Num 3], [Num 4, NaN, Num 6], [Num 7, Num 8, Num 9]] ! (1 - 1 + i) ! (1 - 1 + j)))
       = (40 :: real)"
proof -
  define chunk where "chunk = [[Num 1, Num 2, Num 3], [Num 4, NaN, Num 6], [Num 7, Num 8, Num 9]]"
  define kern where "kern = [[Num 1, Num 1, Num 1], [Num 1, Num 2, Num 1], [Num 1, Num 1, Num 1]]"
  have h1: "rect chunk" by (simp add: chunk_def rect_def ncols_def)
  have h2: "rect kern" by (simp add: kern_def rect_def ncols_def)
  have h3: "\<forall>row \<in> set kern. \<forall>w \<in> set row. \<not> isnan w" by (simp add: kern_def)
  have k: "nrows kern = 3" "ncols kern = 3" "nrows chunk = 3" "ncols chunk = 3"
    by (simp_all add: kern_def chunk_def nrows_def ncols_def)
  have p: "rpad kern = 1" "cpad kern = 1"
    by (simp_all add: rpad_def cpad_def get_offsets_def shape_def k)
  have v: "correlate2d_chunk chunk kern ! 1 ! 1 = Some (Num 40)"
    unfolding chunk_def kern_def by code_simp
  from correlate2d_chunk_skips_nan [OF h1 h2 h3, of 1 1]
  have "correlate2d_chunk chunk kern ! 1 ! 1
        = Some (Num (\<Sum>i < 3. \<Sum>j < 3.
              contribution (kern ! i ! j) (chunk ! (1 - 1 + i) ! (1 - 1 + j))))"
    by (simp add: k p)
  with v h1 h2 show ?thesis unfolding chunk_def kern_def by simp
qed

text \<open>
  Claim C2.  On every tile, footprint and reducer, \<^verbatim>\<open>_focal_chunk\<close> returns a buffer in
  which exactly the cells strictly inside the halo border (outside the outer \<open>rpad\<close> rows
  and \<open>cpad\<close> columns on each side) hold a reducer result, and the array that the tile
  step of \<^verbatim>\<open>_focal_dask_map\<close> returns has the interior shape of the tile, the halo
  stripped, every cell of it a reducer result.
\<close>

theorem focal_tile_interior:
  "let out = focal_chunk filled to_dtype tile kern func;
       res = focal_dask_map_tile (\<lambda>t. focal_chunk filled to_dtype t kern func) kern tile;
       rows = nrows tile; cols = ncols tile;
       sample = (\<lambda>r c. gather tile (concat kern) (nrows kern * ncols kern) (filled (int r) (int c))
                          (int r) (int c)
                          ((int (nrows kern) - 1) div 2) (int (nrows kern) div 2)
                          ((int (ncols kern) - 1) div 2) (int (ncols kern) div 2))
   in (\<forall>r < rows. \<forall>c < cols.
         out ! r ! c =
           (if rpad kern \<le> r \<and> r < rows - rpad kern \<and> cpad kern \<le> c \<and> c < cols - cpad kern
            then Some (to_dtype (func (sample r c))) else None))
    \<and> nrows res = rows - 2 * rpad kern
    \<and> (\<forall>i < rows - 2 * rpad kern.
          length (res ! i) = cols - 2 * cpad kern
        \<and> (\<forall>j < cols - 2 * cpad kern.
              res ! i ! j = Some (to_dtype (func (sample (i + rpad kern) (j + cpad kern))))))"
proof -
  define out where "out = focal_chunk filled to_dtype tile kern func"
  define res where "res = focal_dask_map_tile (\<lambda>t. focal_chunk filled to_dtype t kern func) kern tile"
  have res: "res = trim (rpad kern) (cpad kern) out"
    by (simp add: res_def out_def focal_dask_map_tile_def overlap_tile_def)
  have lo: "length out = nrows tile"
    using nrows_focal_chunk [of filled to_dtype tile kern func] by (simp add: out_def nrows_def)
  have lr: "length (out ! r) = ncols tile" if "r < nrows tile" for r
    using that by (simp add: out_def length_focal_chunk_row)
  have cells: "\<forall>r < nrows tile. \<forall>c < ncols tile.
         out ! r ! c =
           (if rpad kern \<le> r \<and> r < nrows tile - rpad kern
               \<and> cpad kern \<le> c \<and> c < ncols tile - cpad kern
            then Some (to_dtype (func (gather tile (concat kern) (nrows kern * ncols kern)
                          (filled (int r) (int c)) (int r) (int c)
                          ((int (nrows kern) - 1) div 2) (int (nrows kern) div 2)
                          ((int (ncols kern) - 1) div 2) (int (ncols kern) div 2))))
            else None)"
    by (simp add: out_def focal_chunk_nth)
  have n: "nrows res = nrows tile - 2 * rpad kern"
    by (simp add: res nrows_def length_trim lo)
  have inner: "length (res ! i) = ncols tile - 2 * cpad kern
        \<and> (\<forall>j < ncols tile - 2 * cpad kern.
              res ! i ! j = Some (to_dtype (func (gather tile (concat kern) (nrows kern * ncols kern)
                          (filled (int (i + rpad kern)) (int (j + cpad kern)))
                          (int (i + rpad kern)) (int (j + cpad kern))
                          ((int (nrows kern) - 1) div 2) (int (nrows kern) div 2)
                          ((int (ncols kern) - 1) div 2) (int (ncols kern) div 2)))))"
    if i: "i < nrows tile - 2 * rpad kern" for i
  proof -
    have i': "i < length out - 2 * rpad kern" using i lo by simp
    have r: "i + rpad kern < nrows tile" using i by linarith
    have row: "res ! i = take (ncols tile - 2 * cpad kern) (drop (cpad kern) (out ! (i + rpad kern)))"
      unfolding res using trim_row [OF i'] lr [OF r] by simp
    have "res ! i ! j = Some (to_dtype (func (gather tile (concat kern) (nrows kern * ncols kern)
                          (filled (int (i + rpad kern)) (int (j + cpad kern)))
                          (int (i + rpad kern)) (int (j + cpad kern))
                          ((int (nrows kern) - 1) div 2) (int (nrows kern) div 2)
                          ((int (ncols kern) - 1) div 2) (int (ncols kern) div 2))))"
      if j: "j < ncols tile - 2 * cpad kern" for j
    proof -
      have c: "j + cpad kern < ncols tile" using j by linarith
      have "res ! i ! j = out ! (i + rpad kern) ! (j + cpad kern)"
        using j lr [OF r] by (simp add: row add.commute)
      also have "\<dots> = Some (to_dtype (func (gather tile (concat kern) (nrows kern * ncols kern)
                          (filled (int (i + rpad kern)) (int (j + cpad kern)))
                          (int (i + rpad kern)) (int (j + cpad kern))
                          ((int (nrows kern) - 1) div 2) (int (nrows kern) div 2)
                          ((int (ncols kern) - 1) div 2) (int (ncols kern) div 2))))"
      proof -
        have "i + rpad kern < nrows tile - rpad kern" "j + cpad kern < ncols tile - cpad kern"
          using i j by linarith+
        then show ?thesis using cells r c by simp
      qed
      finally show ?thesis .
    qed
    moreover have "length (res ! i) = ncols tile - 2 * cpad kern"
      using lr [OF r] by (simp add: row)
    ultimately show ?thesis by blast
  qed
  show ?thesis
    unfolding Let_def out_def [symmetric] res_def [symmetric]
    using cells n inner by blast
qed

theorem focal_tile_interior_witness:
  "focal_chunk (\<lambda>r c ki. NaN) (\<lambda>v. v) [[Num 1, Num 2, Num 3], [Num 4, NaN, Num 6], [Num 7, Num 8, Num 9]]
       [[False, True, False], [True, True, True], [False, True, False]] agg_nan_sum ! 1 ! 1
     = Some (Num 20)
   \<and> focal_chunk (\<lambda>r c ki. NaN) (\<lambda>v. v) [[Num 1, Num 2, Num 3], [Num 4, NaN, Num 6], [Num 7, Num 8, Num 9]]
       [[False, True, False], [True, True, True], [False, True, False]] agg_nan_sum ! 0 ! 2
     = None
   \<and> nrows (focal_dask_map_tile
         (\<lambda>t. focal_chunk (\<lambda>r c ki. NaN) (\<lambda>v. v) t [[False, True, False], [True, True, True], [False, True, False]]
                 agg_nan_sum)
         [[False, True, False], [True, True, True], [False, True, False]]
         [[Num 1, Num 2, Num 3], [Num 4, NaN, Num 6], [Num 7, Num 8, Num 9]]) = 1
   \<and> focal_dask_map_tile
         (\<lambda>t. focal_chunk (\<lambda>r c ki. NaN) (\<lambda>v. v) t [[False, True, False], [True, True, True], [False, True, False]]
                 agg_nan_sum)
         [[False, True, False], [True, True, True], [False, True, False]]
         [[Num 1, Num 2, Num 3], [Num 4, NaN, Num 6], [Num 7, Num 8, Num 9]] ! 0
     = [Some (Num 20)]"
proof -
  define tile where "tile = [[Num 1, Num 2, Num 3], [Num 4, NaN, Num 6], [Num 7, Num 8, Num 9]]"
  define kern where "kern = [[False, True, False], [True, True, True], [False, True, False]]"
  define res where "res = focal_dask_map_tile (\<lambda>t. focal_chunk (\<lambda>r c ki. NaN) (\<lambda>v. v) t kern agg_nan_sum) kern tile"
  have k: "nrows kern = 3" "ncols kern = 3" "nrows tile = 3" "ncols tile = 3"
    by (simp_all add: kern_def tile_def nrows_def ncols_def)
  have p: "rpad kern = 1" "cpad kern = 1"
    by (simp_all add: rpad_def cpad_def get_offsets_def shape_def k)
  have s: "agg_nan_sum (gather tile (concat kern) (3 * 3) (\<lambda>ki. NaN) 1 1 ((3 - 1) div 2) (3 div 2)
                          ((3 - 1) div 2) (3 div 2)) = Num 20"
    unfolding tile_def kern_def by code_simp
  note t = focal_tile_interior [of "\<lambda>r c ki. NaN" "\<lambda>v. v" tile kern agg_nan_sum,
      unfolded Let_def k p, folded res_def]
  from t have cells: "\<forall>r < 3. \<forall>c < 3. focal_chunk (\<lambda>r c ki. NaN) (\<lambda>v. v) tile kern agg_nan_sum ! r ! c =
           (if 1 \<le> r \<and> r < 3 - 1 \<and> 1 \<le> c \<and> c < 3 - 1
            then Some (agg_nan_sum (gather tile (concat kern) (3 * 3) (\<lambda>ki. NaN) (int r) (int c)
                          ((int 3 - 1) div 2) (int 3 div 2) ((int 3 - 1) div 2) (int 3 div 2)))
            else None)"
    by blast
  from cells have a: "focal_chunk (\<lambda>r c ki. NaN) (\<lambda>v. v) tile kern agg_nan_sum ! 1 ! 1 = Some (Num 20)"
    using s by simp
  from cells have b: "focal_chunk (\<lambda>r c ki. NaN) (\<lambda>v. v) tile kern agg_nan_sum ! 0 ! 2 = None"
    by simp
  from t have n: "nrows res = 1" by simp
  from t have "length (res ! 0) = 1 \<and> res ! 0 ! 0
      = Some (agg_nan_sum (gather tile (concat kern) (3 * 3) (\<lambda>ki. NaN) (int (0 + 1)) (int (0 + 1))
                          ((int 3 - 1) div 2) (int 3 div 2) ((int 3 - 1) div 2) (int 3 div 2)))"
    by simp
  then have "length (res ! 0) = 1" "res ! 0 ! 0 = Some (Num 20)"
    using s by simp_all
  then have r0: "res ! 0 = [Some (Num 20)]"
    by (cases "res ! 0") simp_all
  show ?thesis
    using a b n r0 unfolding res_def tile_def kern_def by simp
qed

lemma gather_row:
  "\<exists>kv'. fold (\<lambda>kc st. gather_step chunk kern kr kc st) (map (\<lambda>j. clo + int j) [0..<n]) (ki, kv)
           = (ki + n, kv')
         \<and> length kv' = length kv
         \<and> (\<forall>p < length kv. kv' ! p =
               (if ki \<le> p \<and> p < ki + n \<and> kern ! p then cell chunk kr (clo + int (p - ki))
                else kv ! p))"
proof (induction n)
  case 0
  then show ?case by auto
next
  case (Suc n)
  then obtain kv' where
    f: "fold (\<lambda>kc st. gather_step chunk kern kr kc st) (map (\<lambda>j. clo + int j) [0..<n]) (ki, kv)
        = (ki + n, kv')"
    and l: "length kv' = length kv"
    and c: "\<And>p. p < length kv \<Longrightarrow> kv' ! p =
               (if ki \<le> p \<and> p < ki + n \<and> kern ! p then cell chunk kr (clo + int (p - ki))
                else kv ! p)"
    by blast
  define kv'' where
    "kv'' = (if kern ! (ki + n) then kv'[ki + n := cell chunk kr (clo + int n)] else kv')"
  have step: "fold (\<lambda>kc st. gather_step chunk kern kr kc st)
                (map (\<lambda>j. clo + int j) [0..<Suc n]) (ki, kv) = (ki + Suc n, kv'')"
    by (simp add: f) (simp add: gather_step_def kv''_def)
  have "kv'' ! p = (if ki \<le> p \<and> p < ki + Suc n \<and> kern ! p
                    then cell chunk kr (clo + int (p - ki)) else kv ! p)"
    if p: "p < length kv" for p
  proof (cases "p = ki + n")
    case True
    then show ?thesis using p l c [OF p] by (simp add: kv''_def)
  next
    case False
    then have "kv'' ! p = kv' ! p" by (simp add: kv''_def)
    with False c [OF p] show ?thesis by auto
  qed
  moreover have "length kv'' = length kv" using l by (simp add: kv''_def)
  ultimately show ?case using step by blast
qed

lemma gather_rows:
  "\<exists>kv'. fold (\<lambda>kr st. fold (\<lambda>kc st. gather_step chunk kern kr kc st)
                          (map (\<lambda>j. clo + int j) [0..<n]) st)
            (map (\<lambda>i. rlo + int i) [0..<m]) (0, kv)
           = (m * n, kv')
         \<and> length kv' = length kv
         \<and> (\<forall>p < length kv. kv' ! p =
               (if p < m * n \<and> kern ! p
                then cell chunk (rlo + int (p div n)) (clo + int (p mod n))
                else kv ! p))"
proof (induction m)
  case 0
  then show ?case by simp
next
  case (Suc m)
  then obtain kv1 where
    f: "fold (\<lambda>kr st. fold (\<lambda>kc st. gather_step chunk kern kr kc st)
                          (map (\<lambda>j. clo + int j) [0..<n]) st)
            (map (\<lambda>i. rlo + int i) [0..<m]) (0, kv) = (m * n, kv1)"
    and l1: "length kv1 = length kv"
    and c1: "\<And>p. p < length kv \<Longrightarrow> kv1 ! p =
               (if p < m * n \<and> kern ! p
                then cell chunk (rlo + int (p div n)) (clo + int (p mod n))
                else kv ! p)"
    by blast
  from gather_row [of chunk kern "rlo + int m" clo n "m * n" kv1] obtain kv2 where
    g: "fold (\<lambda>kc st. gather_step chunk kern (rlo + int m) kc st)
          (map (\<lambda>j. clo + int j) [0..<n]) (m * n, kv1) = (m * n + n, kv2)"
    and l2: "length kv2 = length kv1"
    and c2: "\<And>p. p < length kv1 \<Longrightarrow> kv2 ! p =
               (if m * n \<le> p \<and> p < m * n + n \<and> kern ! p
                then cell chunk (rlo + int m) (clo + int (p - m * n))
                else kv1 ! p)"
    by blast
  have step: "fold (\<lambda>kr st. fold (\<lambda>kc st. gather_step chunk kern kr kc st)
                          (map (\<lambda>j. clo + int j) [0..<n]) st)
            (map (\<lambda>i. rlo + int i) [0..<Suc m]) (0, kv) = (Suc m * n, kv2)"
    by (simp add: f g add.commute)
  have "kv2 ! p = (if p < Suc m * n \<and> kern ! p
                   then cell chunk (rlo + int (p div n)) (clo + int (p mod n))
                   else kv ! p)"
    if p: "p < length kv" for p
  proof (cases "m * n \<le> p \<and> p < m * n + n")
    case True
    then have "0 < n" by (cases n) simp_all
    have d: "p div n = m"
      by (rule div_nat_eqI) (use True in \<open>simp_all add: mult.commute\<close>)
    then have "p mod n = p - m * n"
      by (metis minus_div_mult_eq_mod)
    with d True c2 [of p] c1 [OF p] p l1 show ?thesis by simp
  next
    case False
    with c2 [of p] c1 [OF p] p l1 show ?thesis by auto
  qed
  moreover have "length kv2 = length kv" using l1 l2 by simp
  ultimately show ?case using step by blast
qed

text \<open>
  The sample that \<^verbatim>\<open>_focal_chunk\<close> hands to the reducer at the cell \<open>(r, c)\<close>: one slot per
  kernel position, holding the tile value at that offset where the footprint is set and
  what the fill left there elsewhere.
\<close>

lemma gather_nth:
  assumes "p < krows * kcols"
  shows "gather chunk kern (krows * kcols) filled r c
           ((int krows - 1) div 2) (int krows div 2) ((int kcols - 1) div 2) (int kcols div 2) ! p
         = (if kern ! p
            then cell chunk (r - (int krows - 1) div 2 + int (p div kcols))
                            (c - (int kcols - 1) div 2 + int (p mod kcols))
            else filled p)"
proof -
  have r: "r + int krows div 2 + 1 = (r - (int krows - 1) div 2) + int krows"
    using offsets_sum [of "int krows"] by linarith
  have c: "c + int kcols div 2 + 1 = (c - (int kcols - 1) div 2) + int kcols"
    using offsets_sum [of "int kcols"] by linarith
  from gather_rows [of chunk kern "c - (int kcols - 1) div 2" kcols
      "r - (int krows - 1) div 2" krows "map filled [0..<krows * kcols]"]
  show ?thesis
    unfolding gather_def r c py_range_offset using assms by auto
qed

lemma length_gather:
  "length (gather chunk kern (krows * kcols) filled r c
             ((int krows - 1) div 2) (int krows div 2) ((int kcols - 1) div 2) (int kcols div 2))
   = krows * kcols"
proof -
  have r: "r + int krows div 2 + 1 = (r - (int krows - 1) div 2) + int krows"
    using offsets_sum [of "int krows"] by linarith
  have c: "c + int kcols div 2 + 1 = (c - (int kcols - 1) div 2) + int kcols"
    using offsets_sum [of "int kcols"] by linarith
  from gather_rows [of chunk kern "c - (int kcols - 1) div 2" kcols
      "r - (int krows - 1) div 2" krows "map filled [0..<krows * kcols]"]
  show ?thesis
    unfolding gather_def r c py_range_offset by auto
qed

section \<open>Properties of the engine\<close>

lemma dt_setitem [simp]: "dt (setitem E a bnd v) = dt a"
  by (simp add: setitem_def)

lemma dt_focal_bands [simp]: "dt (fst (focal_bands E U a win ft na bnds)) = dt a"
  by (induction bnds arbitrary: a) (auto split: sum.splits)

lemma dt_correlate_bands [simp]: "dt (fst (correlate_bands E a k mode cval na bnds)) = dt a"
  by (induction bnds arbitrary: a) (auto split: sum.splits)

lemma dt_astype [simp]: "dt (astype E d a) = d"
  by (simp add: astype_def)

lemma dt_nan_where [simp]: "dt (nan_where m a) = dt a"
  by (simp add: nan_where_def)

lemma copy_raster_eq:
  "copy_raster s r =
     (length (rasters s),
      s\<lparr>arrays := arrays s @ [arrays s ! data_ref (rasters s ! r)],
        rasters := rasters s @ [(rasters s ! r)\<lparr>data_ref := length (arrays s)\<rparr>]\<rparr>)"
  by (simp add: copy_raster_def alloc_array_def Let_def)

lemmas store_ops = copy_raster_eq alloc_array_def astype_new_def where_new_def put_array_def
  set_data_def masked_def raster_dtype_def valid_raster_def

lemma dt_focal_bandsD: "focal_bands E U a win ft na bnds = (b, e) \<Longrightarrow> dt b = dt a"
  using dt_focal_bands [of E U a win ft na bnds] by simp

lemma dt_correlate_bandsD: "correlate_bands E a k mode cval na bnds = (b, e) \<Longrightarrow> dt b = dt a"
  using dt_correlate_bands [of E a k mode cval na bnds] by simp

lemma focal_output_dtype:
  assumes "valid_raster s r" "focal E U s r ft w h = (s', Inr rs)"
  shows "raster_dtype s' rs =
           (if masked s r \<and> ft \<in> set FOCAL_PROMOTING_OPS
            then promote_dtype_to_float E (raster_dtype s r) else raster_dtype s r)"
proof -
  from assms(2) obtain window where w: "get_focal_window w h = Inr window"
    and ft: "ft \<in> set FOCAL_STATS"
    by (auto simp: focal_def split: if_splits sum.splits)
  show ?thesis
    using assms w ft
    apply (simp add: focal_def store_ops Let_def nth_append split: prod.splits option.splits if_splits)
    apply (auto simp: nth_append dest: dt_focal_bandsD)
    done
qed

lemma focal_store:
  assumes "valid_raster s r"
  shows "case focal E U s r ft w h of (s', res) \<Rightarrow>
           (\<exists>new_arrays new_rasters.
              arrays s' = arrays s @ new_arrays \<and> rasters s' = rasters s @ new_rasters)
         \<and> (case res of Inl e \<Rightarrow> True
             | Inr rs \<Rightarrow> valid_raster s' rs \<and> length (rasters s) \<le> rs)"
proof (cases "ft \<in> set FOCAL_STATS")
  case False
  with assms show ?thesis by (simp add: focal_def)
next
  case ft: True
  show ?thesis
  proof (cases "get_focal_window w h")
    case (Inl e)
    with assms ft show ?thesis by (simp add: focal_def)
  next
    case (Inr window)
    define A where "A = arrays s ! data_ref (rasters s ! r)"
    show ?thesis
      using assms ft Inr
      by (cases "null_value (rasters s ! r)";
          cases "promote_dtype_to_float E (dt A) = dt A")
        (simp_all add: focal_def store_ops Let_def nth_append list_update_append A_def
          split: prod.splits option.splits)
  qed
qed

lemma focal_view_cong:
  assumes "valid_raster s r" "valid_raster t q" "raster_content s r = raster_content t q"
  shows "result_view (focal E U s r ft w h) = result_view (focal E U t q ft w h)"
proof -
  from assms(3) have eq: "arrays s ! data_ref (rasters s ! r) = arrays t ! data_ref (rasters t ! q)"
    "null_mask (rasters s ! r) = null_mask (rasters t ! q)"
    "null_value (rasters s ! r) = null_value (rasters t ! q)"
    by (simp_all add: raster_content_def)
  show ?thesis
    using assms(1,2)
    apply (simp add: focal_def store_ops Let_def nth_append result_view_def raster_content_def eq
        split: prod.splits option.splits if_splits sum.splits)
    done
qed

lemma promote_float [simp]: "promote_dtype_to_float E (Float_dt b) = Float_dt b"
  by (simp add: promote_dtype_to_float_def)

lemma correlate_store:
  assumes "valid_raster s r"
  shows "case correlate E s r k mode cval of (s', res) \<Rightarrow>
           (\<exists>new_arrays new_rasters.
              arrays s' = arrays s @ new_arrays \<and> rasters s' = rasters s @ new_rasters)
         \<and> (case res of Inl e \<Rightarrow> True
             | Inr rs \<Rightarrow> valid_raster s' rs \<and> length (rasters s) \<le> rs)"
proof (cases "check_kernel k")
  case (Some e)
  with assms show ?thesis by (simp add: correlate_def)
next
  case None
  define A where "A = arrays s ! data_ref (rasters s ! r)"
  show ?thesis
    using assms None
    by (cases "is_float_dtype (kdt k) \<and> is_int_dtype (dt A)";
        cases "null_value (rasters s ! r)";
        cases "promote_dtype_to_float E (dt A) = dt A")
      (simp_all add: correlate_def store_ops Let_def nth_append list_update_append A_def
        split: prod.splits option.splits)
qed

lemma correlate_view_cong:
  assumes "valid_raster s r" "valid_raster t q" "raster_content s r = raster_content t q"
  shows "result_view (correlate E s r k mode cval) = result_view (correlate E t q k mode cval)"
proof (cases "check_kernel k")
  case (Some e)
  then show ?thesis by (simp add: correlate_def result_view_def)
next
  case None
  define A where "A = arrays t ! data_ref (rasters t ! q)"
  from assms(3) have eq: "arrays s ! data_ref (rasters s ! r) = A"
    "null_mask (rasters s ! r) = null_mask (rasters t ! q)"
    "null_value (rasters s ! r) = null_value (rasters t ! q)"
    by (simp_all add: raster_content_def A_def)
  show ?thesis
    using assms(1,2) None
    by (cases "is_float_dtype (kdt k)"; cases "is_int_dtype (dt A)";
        cases "null_value (rasters t ! q)";
        cases "promote_dtype_to_float E (dt A) = dt A")
      (simp_all add: correlate_def store_ops Let_def nth_append list_update_append
        result_view_def raster_content_def eq A_def [symmetric]
        split: prod.splits option.splits)
qed

lemma check_kernel_flip: "check_kernel (flip_kernel k) = check_kernel k"
  by (auto simp: check_kernel_def flip_kernel_def)

lemma convolve_eq_correlate:
  "convolve E s G K mode cval = correlate E s G (flip_kernel K) mode cval"
proof (cases "check_kernel K")
  case None
  then show ?thesis by (simp add: convolve_def)
next
  case (Some e)
  then have "check_kernel (flip_kernel K) = Some e" by (simp add: check_kernel_flip)
  with Some show ?thesis by (simp add: convolve_def correlate_def)
qed

text \<open>
  Claim C6.  For every kernel \<open>K\<close> and every raster \<open>G\<close>, \<^verbatim>\<open>convolve(G, K)\<close> is
  \<^verbatim>\<open>correlate(G, K[::-1, ::-1])\<close>, for every edge mode and constant value: the same result
  or the same exception, and the same store.  A two-dimensional NaN-free kernel is the
  case in which neither raises on the kernel.
\<close>

theorem convolve_correlate_duality:
  "convolve E s G K mode cval = correlate E s G (flip_kernel K) mode cval"
  by (rule convolve_eq_correlate)

lemma convolve_store:
  assumes "valid_raster s r"
  shows "case convolve E s r k mode cval of (s', res) \<Rightarrow>
           (\<exists>new_arrays new_rasters.
              arrays s' = arrays s @ new_arrays \<and> rasters s' = rasters s @ new_rasters)
         \<and> (case res of Inl e \<Rightarrow> True
             | Inr rs \<Rightarrow> valid_raster s' rs \<and> length (rasters s) \<le> rs)"
  unfolding convolve_eq_correlate by (rule correlate_store [OF assms])

lemma convolve_view_cong:
  assumes "valid_raster s r" "valid_raster t q" "raster_content s r = raster_content t q"
  shows "result_view (convolve E s r k mode cval) = result_view (convolve E t q k mode cval)"
  unfolding convolve_eq_correlate by (rule correlate_view_cong [OF assms])

lemma raster_content_extended:
  assumes "valid_raster s r" "arrays s' = arrays s @ na" "rasters s' = rasters s @ nr"
  shows "raster_content s' r = raster_content s r" "valid_raster s' r"
  using assms by (simp_all add: raster_content_def valid_raster_def nth_append)

lemma leaves_input_unchangedI:
  assumes store1: "\<And>s r. valid_raster s r \<Longrightarrow>
            (case first_call s r of (s', res) \<Rightarrow>
               (\<exists>new_arrays new_rasters.
                  arrays s' = arrays s @ new_arrays \<and> rasters s' = rasters s @ new_rasters)
             \<and> (case res of Inl e \<Rightarrow> True
                 | Inr rs \<Rightarrow> valid_raster s' rs \<and> length (rasters s) \<le> rs))"
    and store2: "\<And>s r. valid_raster s r \<Longrightarrow>
            (case second_call s r of (s', res) \<Rightarrow>
               (\<exists>new_arrays new_rasters.
                  arrays s' = arrays s @ new_arrays \<and> rasters s' = rasters s @ new_rasters)
             \<and> (case res of Inl e \<Rightarrow> True
                 | Inr rs \<Rightarrow> valid_raster s' rs \<and> length (rasters s) \<le> rs))"
    and v: "valid_raster s r"
  shows "leaves_input_unchanged first_call second_call s r"
proof -
  obtain s1 res1 where o1: "first_call s r = (s1, res1)" by (cases "first_call s r")
  obtain s2 res2 where o2: "second_call s1 r = (s2, res2)" by (cases "second_call s1 r")
  from store1 [OF v] o1 obtain na nr where
    e1: "arrays s1 = arrays s @ na" "rasters s1 = rasters s @ nr"
    and r1: "case res1 of Inl e \<Rightarrow> True | Inr rs \<Rightarrow> valid_raster s1 rs \<and> length (rasters s) \<le> rs"
    by auto
  note c1 = raster_content_extended [OF v e1]
  from store2 [OF c1(2)] o2 obtain na2 nr2 where
    e2: "arrays s2 = arrays s1 @ na2" "rasters s2 = rasters s1 @ nr2"
    and r2: "case res2 of Inl e \<Rightarrow> True | Inr rs \<Rightarrow> valid_raster s2 rs \<and> length (rasters s1) \<le> rs"
    by auto
  note c2 = raster_content_extended [OF c1(2) e2]
  have first: "case res1 of Inl e \<Rightarrow> True
               | Inr rs \<Rightarrow> rs \<noteq> r \<and> raster_content s2 rs = raster_content s1 rs"
  proof (cases res1)
    case (Inl e)
    then show ?thesis by simp
  next
    case (Inr rs)
    with r1 have vr: "valid_raster s1 rs" and fresh: "length (rasters s) \<le> rs" by simp_all
    from v fresh have "rs \<noteq> r" by (auto simp: valid_raster_def)
    with raster_content_extended(1) [OF vr e2] Inr show ?thesis by simp
  qed
  have second: "case res2 of Inl e \<Rightarrow> True | Inr rs \<Rightarrow> rs \<noteq> r"
  proof (cases res2)
    case (Inl e)
    then show ?thesis by simp
  next
    case (Inr rs)
    with r2 have "length (rasters s1) \<le> rs" by simp
    with v e1(2) have "rs \<noteq> r" by (auto simp: valid_raster_def)
    with Inr show ?thesis by simp
  qed
  show ?thesis
    using e1 e2 c1(1) c2(1) first second by (simp add: leaves_input_unchanged_def o1 o2)
qed

text \<open>
  The frame property, for every raster of the store: whatever the integer
  buffers of the tile kernel hold during the first call and during the second, two calls
  of \<^verbatim>\<open>focal\<close>, of \<^verbatim>\<open>correlate\<close> or of \<^verbatim>\<open>convolve\<close> on the same raster change nothing that was
  in the store, and each returns a new raster or raises.
\<close>

lemma focal_leaves_input_unchanged:
  assumes "valid_raster s r"
  shows "leaves_input_unchanged (\<lambda>s r. focal E U1 s r focal_type w height)
           (\<lambda>s r. focal E U2 s r focal_type w height) s r"
  by (rule leaves_input_unchangedI [OF focal_store focal_store assms])

lemma correlate_leaves_input_unchanged:
  assumes "valid_raster s r"
  shows "leaves_input_unchanged (\<lambda>s r. correlate E s r kern mode cval)
           (\<lambda>s r. correlate E s r kern mode cval) s r"
  by (rule leaves_input_unchangedI [OF correlate_store correlate_store assms])

lemma convolve_leaves_input_unchanged:
  assumes "valid_raster s r"
  shows "leaves_input_unchanged (\<lambda>s r. convolve E s r kern mode cval)
           (\<lambda>s r. convolve E s r kern mode cval) s r"
  by (rule leaves_input_unchangedI [OF convolve_store convolve_store assms])

text \<open>
  The second call shows what the first one did when the result is a function of the
  content of the input raster.
\<close>

lemma same_resultI:
  assumes store: "valid_raster s r \<Longrightarrow>
            (case first_call s r of (s', res) \<Rightarrow>
               (\<exists>new_arrays new_rasters.
                  arrays s' = arrays s @ new_arrays \<and> rasters s' = rasters s @ new_rasters)
             \<and> (case res of Inl e \<Rightarrow> True
                 | Inr rs \<Rightarrow> valid_raster s' rs \<and> length (rasters s) \<le> rs))"
    and cong: "\<And>t. valid_raster t r \<Longrightarrow> raster_content t r = raster_content s r \<Longrightarrow>
            result_view (second_call t r) = result_view (first_call s r)"
    and v: "valid_raster s r"
  shows "same_result first_call second_call s r"
proof -
  obtain s1 res1 where o1: "first_call s r = (s1, res1)" by (cases "first_call s r")
  from store [OF v] o1 obtain na nr where
    e1: "arrays s1 = arrays s @ na" "rasters s1 = rasters s @ nr"
    by auto
  note c1 = raster_content_extended [OF v e1]
  from cong [OF c1(2) c1(1)] o1 show ?thesis by (simp add: same_result_def)
qed

lemma correlate_same_result:
  assumes "valid_raster s r"
  shows "same_result (\<lambda>s r. correlate E s r kern mode cval)
           (\<lambda>s r. correlate E s r kern mode cval) s r"
proof (rule same_resultI [OF _ _ assms])
  show "case correlate E s r kern mode cval of (s', res) \<Rightarrow>
           (\<exists>new_arrays new_rasters.
              arrays s' = arrays s @ new_arrays \<and> rasters s' = rasters s @ new_rasters)
         \<and> (case res of Inl e \<Rightarrow> True
             | Inr rs \<Rightarrow> valid_raster s' rs \<and> length (rasters s) \<le> rs)"
    by (rule correlate_store [OF assms])
  show "result_view (correlate E t r kern mode cval) = result_view (correlate E s r kern mode cval)"
    if "valid_raster t r" "raster_content t r = raster_content s r" for t
    by (rule correlate_view_cong [OF that(1) assms that(2)])
qed

lemma convolve_same_result:
  assumes "valid_raster s r"
  shows "same_result (\<lambda>s r. convolve E s r kern mode cval)
           (\<lambda>s r. convolve E s r kern mode cval) s r"
proof (rule same_resultI [OF _ _ assms])
  show "case convolve E s r kern mode cval of (s', res) \<Rightarrow>
           (\<exists>new_arrays new_rasters.
              arrays s' = arrays s @ new_arrays \<and> rasters s' = rasters s @ new_rasters)
         \<and> (case res of Inl e \<Rightarrow> True
             | Inr rs \<Rightarrow> valid_raster s' rs \<and> length (rasters s) \<le> rs)"
    by (rule convolve_store [OF assms])
  show "result_view (convolve E t r kern mode cval) = result_view (convolve E s r kern mode cval)"
    if "valid_raster t r" "raster_content t r = raster_content s r" for t
    by (rule convolve_view_cong [OF that(1) assms that(2)])
qed

text \<open>
  \<^verbatim>\<open>focal\<close> reads the slots that the fill left in an integer buffer only on a raster
  without null value whose data is not a float array, and for a statistic that neither
  forces float semantics nor goes to \<^verbatim>\<open>ndfilters\<close>: these are \<^verbatim>\<open>mode\<close> and \<^verbatim>\<open>unique\<close>.
  Everywhere else the buffer is a float buffer or is not used, and the result is a
  function of the content of the raster.
\<close>

lemma nan_filled_float: "is_float_dtype d \<Longrightarrow> nan_filled d U = nan_filled d U'"
  by (intro ext) (simp add: nan_filled_def)

lemma focal_dispatch_float:
  assumes "is_float_dtype (fst data)"
  shows "focal_dispatch E U operation data k f b = focal_dispatch E U' operation data k f b"
  using nan_filled_float [OF assms, of U U'] by (simp add: focal_dispatch_def split: option.splits)

lemma fst_promote_data_dtype [simp]:
  "fst (promote_data_dtype E d) = promote_dtype_to_float E (fst d)"
  by (simp add: promote_data_dtype_def astype_plane_def)

lemma is_float_promote [simp]: "is_float_dtype (promote_dtype_to_float E d)"
  by (simp add: promote_dtype_to_float_def)

lemma focal_2d_float:
  assumes "na \<or> stat \<in> set FOCAL_PROMOTING_OPS \<or> is_float_dtype (fst d)"
  shows "focal_2d E U d k stat na = focal_2d E U' d k stat na"
proof (cases "na \<or> stat \<in> set FOCAL_PROMOTING_OPS")
  case True
  then have i: "(if na \<or> stat \<in> set FOCAL_PROMOTING_OPS then promote_data_dtype E d else d)
                = promote_data_dtype E d"
    by simp
  have "focal_dispatch E U ''focal'' (promote_data_dtype E d) k' f b
        = focal_dispatch E U' ''focal'' (promote_data_dtype E d) k' f b" for k' f b
    by (rule focal_dispatch_float) simp
  then show ?thesis
    unfolding focal_2d_def Let_def i by (simp split: option.splits)
next
  case False
  then have i: "(if na \<or> stat \<in> set FOCAL_PROMOTING_OPS then promote_data_dtype E d else d) = d"
    by simp
  from False assms have "is_float_dtype (fst d)" by simp
  then have "focal_dispatch E U ''focal'' d k' f b = focal_dispatch E U' ''focal'' d k' f b"
    for k' f b
    by (rule focal_dispatch_float)
  then show ?thesis
    unfolding focal_2d_def Let_def i by (simp split: option.splits)
qed

lemma focal_2d_ndfilters:
  assumes "\<not> na" "stat \<in> {''min'', ''max'', ''sum''}"
  shows "focal_2d E U d k stat na = focal_2d E U' d k stat na"
  using assms by (auto simp: focal_2d_def Let_def split: option.splits)

lemma focal_2d_unset:
  assumes "na \<or> stat \<in> set FOCAL_PROMOTING_OPS \<or> is_float_dtype (fst d)
           \<or> stat \<in> {''min'', ''max'', ''sum''}"
  shows "focal_2d E U d k stat na = focal_2d E U' d k stat na"
proof (cases "na \<or> stat \<in> set FOCAL_PROMOTING_OPS \<or> is_float_dtype (fst d)")
  case True
  then show ?thesis by (rule focal_2d_float)
next
  case False
  with assms show ?thesis by (intro focal_2d_ndfilters) simp_all
qed

lemma focal_bands_unset:
  assumes "na \<or> stat \<in> set FOCAL_PROMOTING_OPS \<or> is_float_dtype (dt a)
           \<or> stat \<in> {''min'', ''max'', ''sum''}"
  shows "focal_bands E U a k stat na bnds = focal_bands E U' a k stat na bnds"
  using assms
proof (induction bnds arbitrary: a)
  case Nil
  then show ?case by simp
next
  case (Cons bnd bnds)
  from Cons.prems have
    "focal_2d E (U bnd) (getitem a bnd) k stat na = focal_2d E (U' bnd) (getitem a bnd) k stat na"
    by (intro focal_2d_unset) (simp add: getitem_def)
  moreover have "focal_bands E U (setitem E a bnd v) k stat na bnds
                 = focal_bands E U' (setitem E a bnd v) k stat na bnds" for v
    using Cons.prems by (intro Cons.IH) simp
  ultimately show ?case by (simp split: sum.splits)
qed

lemma focal_unset:
  assumes "valid_raster s r"
    and "masked s r \<or> ft \<in> set FOCAL_PROMOTING_OPS \<or> is_float_dtype (raster_dtype s r)
         \<or> ft \<in> {''min'', ''max'', ''sum''}"
  shows "focal E U s r ft w h = focal E U' s r ft w h"
proof (cases "masked s r")
  case True
  have "focal_bands E U a k ft True bnds = focal_bands E U' a k ft True bnds" for a k bnds
    by (rule focal_bands_unset) simp
  with True assms(1) show ?thesis
    by (simp add: focal_def store_ops Let_def nth_append split: prod.splits sum.splits)
next
  case False
  define A where "A = arrays s ! data_ref (rasters s ! r)"
  from False assms(2) have "ft \<in> set FOCAL_PROMOTING_OPS \<or> is_float_dtype (dt A)
      \<or> ft \<in> {''min'', ''max'', ''sum''}"
    by (simp add: raster_dtype_def A_def)
  then have "focal_bands E U A k ft False bnds = focal_bands E U' A k ft False bnds" for k bnds
    by (intro focal_bands_unset) simp
  with False assms(1) show ?thesis
    by (simp add: focal_def store_ops Let_def nth_append A_def split: prod.splits sum.splits)
qed

lemma focal_same_result:
  assumes "valid_raster s r"
    and "masked s r \<or> ft \<in> set FOCAL_PROMOTING_OPS \<or> is_float_dtype (raster_dtype s r)
         \<or> ft \<in> {''min'', ''max'', ''sum''}"
  shows "same_result (\<lambda>s r. focal E U1 s r ft w h) (\<lambda>s r. focal E U2 s r ft w h) s r"
proof (rule same_resultI [OF _ _ assms(1)])
  show "case focal E U1 s r ft w h of (s', res) \<Rightarrow>
           (\<exists>new_arrays new_rasters.
              arrays s' = arrays s @ new_arrays \<and> rasters s' = rasters s @ new_rasters)
         \<and> (case res of Inl e \<Rightarrow> True
             | Inr rs \<Rightarrow> valid_raster s' rs \<and> length (rasters s) \<le> rs)"
    by (rule focal_store [OF assms(1)])
next
  fix t
  assume t: "valid_raster t r" "raster_content t r = raster_content s r"
  from t(2) have "masked t r = masked s r" "raster_dtype t r = raster_dtype s r"
    by (simp_all add: raster_content_def masked_def raster_dtype_def)
  with assms(2) have "focal E U2 t r ft w h = focal E U1 t r ft w h"
    by (intro focal_unset [OF t(1)]) simp
  with focal_view_cong [OF t(1) assms(1) t(2), of E U1 ft w h]
  show "result_view (focal E U2 t r ft w h) = result_view (focal E U1 s r ft w h)" by simp
qed

lemma focal_same_buffers:
  assumes "valid_raster s r"
  shows "same_result (\<lambda>s r. focal E U s r ft w h) (\<lambda>s r. focal E U s r ft w h) s r"
proof (rule same_resultI [OF _ _ assms])
  show "case focal E U s r ft w h of (s', res) \<Rightarrow>
           (\<exists>new_arrays new_rasters.
              arrays s' = arrays s @ new_arrays \<and> rasters s' = rasters s @ new_rasters)
         \<and> (case res of Inl e \<Rightarrow> True
             | Inr rs \<Rightarrow> valid_raster s' rs \<and> length (rasters s) \<le> rs)"
    by (rule focal_store [OF assms])
  show "result_view (focal E U t r ft w h) = result_view (focal E U s r ft w h)"
    if "valid_raster t r" "raster_content t r = raster_content s r" for t
    by (rule focal_view_cong [OF that(1) assms that(2)])
qed

text \<open>
  On a raster without null value the call allocates the array and the raster object of
  the copy and nothing else.
\<close>

lemma focal_unmasked:
  assumes "valid_raster s r" "\<not> masked s r" "ft \<in> set FOCAL_STATS"
    and "get_focal_window w h = Inr window"
    and "focal_bands E U (arrays s ! data_ref (rasters s ! r)) (window_kernel window) ft False
           [0..<length (bands (arrays s ! data_ref (rasters s ! r)))] = (a, None)"
  shows "focal E U s r ft w h =
           (\<lparr>arrays = arrays s @ [a],
             rasters = rasters s @ [(rasters s ! r)\<lparr>data_ref := length (arrays s)\<rparr>]\<rparr>,
            Inr (length (rasters s)))"
  using assms
  by (simp add: focal_def store_ops Let_def nth_append)

text \<open>
  Claim C10, at \<^verbatim>\<open>focal\<close> with the statistic \<^verbatim>\<open>unique\<close> and radius 2 (the plus-shaped
  footprint of 3 by 3) on an int32 raster of one band holding 1 to 9 in 3 rows, without
  null value.  The chunk is an integer array, so \<^verbatim>\<open>kernel_values\<close> is an integer buffer: the
  four slots off the footprint keep what \<^verbatim>\<open>fill(np.nan)\<close> left in them and are counted with
  the values of the neighbourhood.  With zeros in those slots during the first call and
  four other integers during the second, the input raster is left as it was and each call
  returns a new raster, but the two rasters are not the same: the centre cell is 6, then
  9, and the five values of its neighbourhood hold 5 unique values.  The cells at the edge
  see a halo of the int32 value -2147483648.
\<close>

theorem focal_unique_int_not_repeatable:
  "(let E = \<lparr>float_bits = (\<lambda>d. 64), cast_value = (\<lambda>d v. v),
             halo = (\<lambda>b rd cd g. constant_halo (Num (- 2147483648)) rd cd g), uninit = NaN,
             nd_correlate = (\<lambda>d k m c orig. d),
             nd_minimum_filter = (\<lambda>d k m. d), nd_maximum_filter = (\<lambda>d k m. d)\<rparr>;
        s = \<lparr>arrays = [\<lparr>dt = Int_dt 32,
                        bands = [[[Num 1, Num 2, Num 3], [Num 4, Num 5, Num 6],
                                  [Num 7, Num 8, Num 9]]]\<rparr>],
             rasters = [\<lparr>data_ref = 0,
                         null_mask = [[[False, False, False], [False, False, False],
                                       [False, False, False]]],
                         null_value = None\<rparr>]\<rparr>;
        first_call = (\<lambda>s r. focal E (\<lambda>bnd r c ki. 0) s r ''unique'' (Scalar (IntV 2)) None);
        second_call = (\<lambda>s r. focal E (\<lambda>bnd r c ki. 100 + int ki) s r ''unique''
                                (Scalar (IntV 2)) None)
    in valid_raster s 0
     \<and> leaves_input_unchanged first_call second_call s 0
     \<and> result_view (first_call s 0)
         = Inr (\<lparr>dt = Int_dt 32,
                  bands = [[[Num 5, Num 6, Num 5], [Num 6, Num 6, Num 6],
                            [Num 5, Num 6, Num 5]]]\<rparr>,
                [[[False, False, False], [False, False, False], [False, False, False]]], None)
     \<and> result_view (second_call (fst (first_call s 0)) 0)
         = Inr (\<lparr>dt = Int_dt 32,
                  bands = [[[Num 8, Num 9, Num 8], [Num 9, Num 9, Num 9],
                            [Num 8, Num 9, Num 8]]]\<rparr>,
                [[[False, False, False], [False, False, False], [False, False, False]]], None)
     \<and> \<not> same_result first_call second_call s 0
     \<and> agg_nan_unique [Num 2, Num 4, Num 5, Num 6, Num 8] = Num 5)"
proof -
  let ?E = "\<lparr>float_bits = (\<lambda>d. 64), cast_value = (\<lambda>d v. v),
             halo = (\<lambda>b rd cd g. constant_halo (Num (- 2147483648)) rd cd g), uninit = NaN,
             nd_correlate = (\<lambda>d k m c orig. d),
             nd_minimum_filter = (\<lambda>d k m. d), nd_maximum_filter = (\<lambda>d k m. d)\<rparr> :: ext"
  let ?g = "[[Num 1, Num 2, Num 3], [Num 4, Num 5, Num 6], [Num 7, Num 8, Num 9]]"
  let ?g1 = "[[Num 5, Num 6, Num 5], [Num 6, Num 6, Num 6], [Num 5, Num 6, Num 5]]"
  let ?g2 = "[[Num 8, Num 9, Num 8], [Num 9, Num 9, Num 9], [Num 8, Num 9, Num 8]]"
  let ?m = "[[[False, False, False], [False, False, False], [False, False, False]]]"
  let ?W = "[[False, True, False], [True, True, True], [False, True, False]]"
  let ?r0 = "\<lparr>data_ref = 0, null_mask = ?m, null_value = None\<rparr>"
  let ?A = "\<lparr>dt = Int_dt 32, bands = [?g]\<rparr>"
  let ?s = "\<lparr>arrays = [?A], rasters = [?r0]\<rparr>"
  let ?s1 = "\<lparr>arrays = [?A, \<lparr>dt = Int_dt 32, bands = [?g1]\<rparr>],
              rasters = [?r0, \<lparr>data_ref = 1, null_mask = ?m, null_value = None\<rparr>]\<rparr>"
  let ?s2 = "\<lparr>arrays = [?A, \<lparr>dt = Int_dt 32, bands = [?g1]\<rparr>, \<lparr>dt = Int_dt 32, bands = [?g2]\<rparr>],
              rasters = [?r0, \<lparr>data_ref = 1, null_mask = ?m, null_value = None\<rparr>,
                         \<lparr>data_ref = 2, null_mask = ?m, null_value = None\<rparr>]\<rparr>"
  let ?U1 = "\<lambda>(bnd :: nat) (r :: int) (c :: int) (ki :: nat). 0 :: int"
  let ?U2 = "\<lambda>(bnd :: nat) (r :: int) (c :: int) (ki :: nat). 100 + int ki"
  have w: "get_focal_window (Scalar (IntV 2)) None = Inr ?W" by code_simp
  have st: "''unique'' \<in> set FOCAL_STATS" by (simp add: FOCAL_STATS_def)
  have t1: "focal_dask_map ?E (Int_dt 32, ?g)
         (\<lambda>chunk. focal_chunk (nan_filled (Int_dt 32) (\<lambda>r c ki. 0)) (\<lambda>v. v) chunk ?W agg_nan_unique)
         [[Num 0, Num 1, Num 0], [Num 1, Num 1, Num 1], [Num 0, Num 1, Num 0]] (BValue NaN)
     = (Int_dt 32, ?g1)"
    by code_simp
  have t2: "focal_dask_map ?E (Int_dt 32, ?g)
         (\<lambda>chunk. focal_chunk (nan_filled (Int_dt 32) (\<lambda>r c ki. 100 + int ki)) (\<lambda>v. v) chunk ?W
                     agg_nan_unique)
         [[Num 0, Num 1, Num 0], [Num 1, Num 1, Num 1], [Num 0, Num 1, Num 0]] (BValue NaN)
     = (Int_dt 32, ?g2)"
    by code_simp
  have c: "convert ?E (Float_dt 64) (Int_dt 32) = (\<lambda>v. v)"
    by (rule ext) (simp add: convert_def)
  have d1: "focal_2d ?E (?U1 0) (Int_dt 32, ?g) (window_kernel ?W) ''unique'' False
            = Inr (Int_dt 32, ?g1)"
    by (simp add: focal_2d_def FOCAL_STATS_def FOCAL_PROMOTING_OPS_def check_kernel_def
        window_kernel_def astype_kernel_def focal_dispatch_def truthy_def c t1 convert_def)
  have d2: "focal_2d ?E (?U2 0) (Int_dt 32, ?g) (window_kernel ?W) ''unique'' False
            = Inr (Int_dt 32, ?g2)"
    by (simp add: focal_2d_def FOCAL_STATS_def FOCAL_PROMOTING_OPS_def check_kernel_def
        window_kernel_def astype_kernel_def focal_dispatch_def truthy_def c t2 convert_def)
  have b1: "focal_bands ?E ?U1 ?A (window_kernel ?W) ''unique'' False [0..<1]
            = (\<lparr>dt = Int_dt 32, bands = [?g1]\<rparr>, None)"
    using d1 by (simp add: getitem_def setitem_def astype_plane_def convert_def)
  have b2: "focal_bands ?E ?U2 ?A (window_kernel ?W) ''unique'' False [0..<1]
            = (\<lparr>dt = Int_dt 32, bands = [?g2]\<rparr>, None)"
    using d2 by (simp add: getitem_def setitem_def astype_plane_def convert_def)
  have v: "valid_raster ?s 0" by (simp add: valid_raster_def)
  have v1: "valid_raster ?s1 0" by (simp add: valid_raster_def)
  have f1: "focal ?E ?U1 ?s 0 ''unique'' (Scalar (IntV 2)) None = (?s1, Inr 1)"
    using focal_unmasked [OF v _ st w, of ?E ?U1] b1 by (simp add: masked_def)
  have f2: "focal ?E ?U2 ?s1 0 ''unique'' (Scalar (IntV 2)) None = (?s2, Inr 2)"
    using focal_unmasked [OF v1 _ st w, of ?E ?U2] b2 by (simp add: masked_def)
  have frame: "leaves_input_unchanged
                 (\<lambda>s r. focal ?E ?U1 s r ''unique'' (Scalar (IntV 2)) None)
                 (\<lambda>s r. focal ?E ?U2 s r ''unique'' (Scalar (IntV 2)) None) ?s 0"
    by (rule focal_leaves_input_unchanged [OF v])
  have rv1: "result_view (focal ?E ?U1 ?s 0 ''unique'' (Scalar (IntV 2)) None)
             = Inr (\<lparr>dt = Int_dt 32, bands = [?g1]\<rparr>, ?m, None)"
    unfolding f1 by (simp add: result_view_def raster_content_def)
  have rv2: "result_view (focal ?E ?U2
                            (fst (focal ?E ?U1 ?s 0 ''unique'' (Scalar (IntV 2)) None)) 0
                            ''unique'' (Scalar (IntV 2)) None)
             = Inr (\<lparr>dt = Int_dt 32, bands = [?g2]\<rparr>, ?m, None)"
    unfolding f1 fst_conv f2 by (simp add: result_view_def raster_content_def)
  have ns: "\<not> same_result
                (\<lambda>s r. focal ?E ?U1 s r ''unique'' (Scalar (IntV 2)) None)
                (\<lambda>s r. focal ?E ?U2 s r ''unique'' (Scalar (IntV 2)) None) ?s 0"
    unfolding same_result_def f1 prod.case f2 by (simp add: result_view_def raster_content_def)
  have u: "agg_nan_unique [Num 2, Num 4, Num 5, Num 6, Num 8] = Num 5" by code_simp
  show ?thesis
    unfolding Let_def by (intro conjI v frame rv1 rv2 ns u)
qed

lemma check_kernel_window [simp]: "check_kernel (window_kernel w) = None"
  by (auto simp: check_kernel_def window_kernel_def)

lemma fst_focal_dask_map [simp]: "fst (focal_dask_map E data f k b) = fst data"
  by (simp add: focal_dask_map_def)

text \<open>
  \<^verbatim>\<open>_focal\<close> returns for every known statistic and every sound kernel, and for a statistic
  that forces float semantics it returns a float array, masked or not.
\<close>

lemma focal_2d_total:
  assumes "stat \<in> set FOCAL_STATS" "check_kernel k = None"
  shows "\<exists>v. focal_2d E U d k stat na = Inr v"
  using assms
  by (auto simp: focal_2d_def FOCAL_STATS_def focal_dispatch_def Let_def)

lemma focal_2d_promotes:
  assumes "stat \<in> set FOCAL_PROMOTING_OPS" "focal_2d E U d k stat na = Inr v"
  shows "is_float_dtype (fst v)"
  using assms
  by (auto simp: focal_2d_def FOCAL_PROMOTING_OPS_def focal_dispatch_def Let_def
      promote_data_dtype_def astype_plane_def split: if_splits option.splits)

lemma focal_bands_total:
  assumes "stat \<in> set FOCAL_STATS" "check_kernel k = None"
  shows "snd (focal_bands E U a k stat na bnds) = None"
proof (induction bnds arbitrary: a)
  case Nil
  then show ?case by simp
next
  case (Cons bnd bnds)
  from focal_2d_total [OF assms] obtain v where
    "focal_2d E (U bnd) (getitem a bnd) k stat na = Inr v" by blast
  with Cons show ?case by simp
qed

lemma case_bands_None:
  "snd p = None \<Longrightarrow>
   (case p of (a, e) \<Rightarrow> (case e of None \<Rightarrow> g a | Some x \<Rightarrow> f a x)) = g (fst p)"
  by (cases p) simp

lemma focal_total:
  assumes "ft \<in> set FOCAL_STATS" "get_focal_window w h = Inr window"
  shows "\<exists>s' rs. focal E U s r ft w h = (s', Inr rs)"
proof -
  have t: "snd (focal_bands E U a (window_kernel window) ft na bnds) = None" for a na bnds
    by (rule focal_bands_total [OF assms(1)]) simp
  show ?thesis
    using assms
    by (simp add: focal_def Let_def case_bands_None [OF t] split: prod.splits)
qed


text \<open>
  On an integer raster without a null mask the array of the copy stays an integer array:
  the float bands that \<^verbatim>\<open>_focal\<close> returns are converted as they are stored.  On a masked
  raster the output of a statistic that forces float semantics is a float array.
\<close>

lemma focal_output_dtype_float:
  assumes "valid_raster s r" "focal E U s r ft w h = (s', Inr rs)"
    and "masked s r" "ft \<in> set FOCAL_PROMOTING_OPS"
  shows "is_float_dtype (raster_dtype s' rs)"
  using focal_output_dtype [OF assms(1,2)] assms(3,4) by simp

text \<open>
  Claim C5 at an integer raster without a null mask and the statistic mean: \<^verbatim>\<open>_focal\<close>
  promotes each band to a float dtype, and the raster that \<^verbatim>\<open>focal\<close> returns has the
  integer dtype of the input, not a float dtype.
\<close>

theorem focal_mean_unmasked_int_dtype:
  "(\<exists>v. focal_2d E unset_band (Int_dt 32, [[Num 1, Num 2], [Num 3, Num 4]]) (window_kernel [[True]])
            ''mean'' False = Inr v \<and> is_float_dtype (fst v))
   \<and> (\<exists>s' rs.
         focal E unset \<lparr>arrays = [\<lparr>dt = Int_dt 32, bands = [[[Num 1, Num 2], [Num 3, Num 4]]]\<rparr>],
                  rasters = [\<lparr>data_ref = 0, null_mask = [[[False, False], [False, False]]],
                              null_value = None\<rparr>]\<rparr>
           0 ''mean'' (Scalar (IntV 1)) None = (s', Inr rs)
       \<and> raster_dtype s' rs = Int_dt 32 \<and> \<not> is_float_dtype (raster_dtype s' rs))"
proof
  have m: "''mean'' \<in> set FOCAL_STATS" "''mean'' \<in> set FOCAL_PROMOTING_OPS"
    by (simp_all add: FOCAL_STATS_def FOCAL_PROMOTING_OPS_def)
  from focal_2d_total [OF m(1) check_kernel_window] obtain v where
    v: "focal_2d E unset_band (Int_dt 32, [[Num 1, Num 2], [Num 3, Num 4]]) (window_kernel [[True]])
          ''mean'' False = Inr v" by blast
  with focal_2d_promotes [OF m(2) v]
  show "\<exists>v. focal_2d E unset_band (Int_dt 32, [[Num 1, Num 2], [Num 3, Num 4]]) (window_kernel [[True]])
            ''mean'' False = Inr v \<and> is_float_dtype (fst v)"
    by blast
  define s0 where "s0 = \<lparr>arrays = [\<lparr>dt = Int_dt 32, bands = [[[Num 1, Num 2], [Num 3, Num 4]]]\<rparr>],
                  rasters = [\<lparr>data_ref = 0, null_mask = [[[False, False], [False, False]]],
                              null_value = None\<rparr>]\<rparr>"
  have w: "get_focal_window (Scalar (IntV 1)) None = Inr (circle_window 1)"
    by (simp add: get_focal_window_circle)
  from focal_total [OF m(1) w] obtain s' rs where
    f: "focal E unset s0 0 ''mean'' (Scalar (IntV 1)) None = (s', Inr rs)" by blast
  have v0: "valid_raster s0 0" by (simp add: valid_raster_def s0_def)
  have "\<not> masked s0 0" "raster_dtype s0 0 = Int_dt 32"
    by (simp_all add: masked_def raster_dtype_def s0_def)
  with focal_output_dtype [OF v0 f] have "raster_dtype s' rs = Int_dt 32" by simp
  with f show "\<exists>s' rs.
         focal E unset \<lparr>arrays = [\<lparr>dt = Int_dt 32, bands = [[[Num 1, Num 2], [Num 3, Num 4]]]\<rparr>],
                  rasters = [\<lparr>data_ref = 0, null_mask = [[[False, False], [False, False]]],
                              null_value = None\<rparr>]\<rparr>
           0 ''mean'' (Scalar (IntV 1)) None = (s', Inr rs)
       \<and> raster_dtype s' rs = Int_dt 32 \<and> \<not> is_float_dtype (raster_dtype s' rs)"
    unfolding s0_def by auto
qed


end
